theory Spec2Isabelle
  imports Complex_Main "HOL-Library.Signed_Division" "HOL-Library.Log_Nat"
begin

section \<open>JavaScript numbers\<close>

text \<open>
  The source (\<^verbatim>\<open>src/main.ts\<close>, namespace \<^verbatim>\<open>DateFns\<close>) computes on JavaScript
  numbers and on the built-in \<^verbatim>\<open>Date\<close> object. A number is modelled as a rational,
  or one of the three special values \<^verbatim>\<open>NaN\<close>, \<^verbatim>\<open>+Infinity\<close>, \<^verbatim>\<open>-Infinity\<close>. The two
  zeros of IEEE arithmetic are one value here. The difference and the quotient the
  source computes are rounded as a double rounds them (\<open>to_double\<close> below): the
  difference of two time values can lie beyond \<open>2^53\<close>, and a quotient by 60000 is
  seldom a double. The floor and the ceiling of a double are exact. The sums of the
  source are of a month index between 0 and 11, the amount and 1; such a sum is exact
  as long as the amount is below \<open>2^53\<close>, and the model takes it exact.
\<close>

datatype number = NaN | Fin rat | PosInf | NegInf

definition isNaN :: "number \<Rightarrow> bool" where
  "isNaN x = (x = NaN)"

text \<open>The relational operators: every comparison with \<^verbatim>\<open>NaN\<close> is false.\<close>

fun js_lt :: "number \<Rightarrow> number \<Rightarrow> bool" where
  "js_lt NaN _ = False"
| "js_lt _ NaN = False"
| "js_lt (Fin a) (Fin b) = (a < b)"
| "js_lt (Fin _) PosInf = True"
| "js_lt (Fin _) NegInf = False"
| "js_lt PosInf _ = False"
| "js_lt NegInf NegInf = False"
| "js_lt NegInf _ = True"

definition js_gt :: "number \<Rightarrow> number \<Rightarrow> bool" where
  "js_gt a b = js_lt b a"

definition js_le :: "number \<Rightarrow> number \<Rightarrow> bool" where
  "js_le a b = (a \<noteq> NaN \<and> b \<noteq> NaN \<and> \<not> js_lt b a)"

definition js_ge :: "number \<Rightarrow> number \<Rightarrow> bool" where
  "js_ge a b = js_le b a"

text \<open>\<^verbatim>\<open>!x\<close> on a number: true for zero and for \<^verbatim>\<open>NaN\<close>.\<close>

definition js_not :: "number \<Rightarrow> bool" where
  "js_not x = (x = NaN \<or> x = Fin 0)"

fun js_add :: "number \<Rightarrow> number \<Rightarrow> number" where
  "js_add NaN _ = NaN"
| "js_add _ NaN = NaN"
| "js_add (Fin a) (Fin b) = Fin (a + b)"
| "js_add (Fin _) PosInf = PosInf"
| "js_add (Fin _) NegInf = NegInf"
| "js_add PosInf NegInf = NaN"
| "js_add PosInf _ = PosInf"
| "js_add NegInf PosInf = NaN"
| "js_add NegInf _ = NegInf"

text \<open>
  Rounding to a double (IEEE 754 binary64, round to nearest, ties to even).
  \<open>ilog2 q\<close> is the exponent of a positive rational \<open>q\<close>, the \<open>e\<close> with
  \<open>2^e \<le> q < 2^(e + 1)\<close>. The doubles of exponent \<open>e\<close> are the multiples of
  \<open>2^(e - 52)\<close>, and below \<open>2^(-1022)\<close> the multiples of \<open>2^(-1074)\<close>; \<open>fl q\<close> is
  the multiple nearest to \<open>q\<close>, the even one of two equally near. A value that rounds
  to \<open>2^1024\<close> or beyond overflows to an infinity.
\<close>

definition ilog2 :: "rat \<Rightarrow> int" where
  "ilog2 q =
     (case quotient_of q of
        (a, b) \<Rightarrow> let e = bitlen a - bitlen b in if 2 powi e \<le> q then e else e - 1)"

definition round_half_even :: "rat \<Rightarrow> int" where
  "round_half_even x =
     (let f = \<lfloor>x\<rfloor>; d = x - of_int f
      in if d < 1 / 2 then f else if 1 / 2 < d then f + 1 else if even f then f else f + 1)"

definition fl :: "rat \<Rightarrow> rat" where
  "fl q =
     (if q = 0 then 0
      else let u = 2 powi (max (ilog2 \<bar>q\<bar>) (- 1022) - 52)
           in of_int (round_half_even (q / u)) * u)"

definition to_double :: "rat \<Rightarrow> number" where
  "to_double q =
     (let r = fl q
      in if 2 ^ 1024 \<le> r then PosInf else if r \<le> - (2 ^ 1024) then NegInf else Fin r)"

fun js_sub :: "number \<Rightarrow> number \<Rightarrow> number" where
  "js_sub NaN _ = NaN"
| "js_sub _ NaN = NaN"
| "js_sub (Fin a) (Fin b) = to_double (a - b)"
| "js_sub (Fin _) PosInf = NegInf"
| "js_sub (Fin _) NegInf = PosInf"
| "js_sub PosInf PosInf = NaN"
| "js_sub PosInf _ = PosInf"
| "js_sub NegInf NegInf = NaN"
| "js_sub NegInf _ = NegInf"

text \<open>Division by a positive finite constant, the only division of the source.\<close>

fun js_div_pos :: "number \<Rightarrow> rat \<Rightarrow> number" where
  "js_div_pos NaN _ = NaN"
| "js_div_pos (Fin a) c = to_double (a / c)"
| "js_div_pos PosInf _ = PosInf"
| "js_div_pos NegInf _ = NegInf"

fun Math_floor :: "number \<Rightarrow> number" where
  "Math_floor (Fin a) = Fin (of_int \<lfloor>a\<rfloor>)"
| "Math_floor x = x"

fun Math_ceil :: "number \<Rightarrow> number" where
  "Math_ceil (Fin a) = Fin (of_int \<lceil>a\<rceil>)"
| "Math_ceil x = x"

text \<open>\<^verbatim>\<open>ToIntegerOrInfinity\<close> on a finite value: truncation towards zero.\<close>

definition trunc :: "rat \<Rightarrow> int" where
  "trunc q = (if q < 0 then \<lceil>q\<rceil> else \<lfloor>q\<rfloor>)"

section \<open>The built-in Date object (ECMA-262, section 21.4)\<close>

text \<open>
  The source never does calendar arithmetic itself: it calls the getters and setters of
  \<^verbatim>\<open>Date\<close>. Their definitions follow the abstract operations of ECMA-262
  (\<^verbatim>\<open>Day\<close>, \<^verbatim>\<open>TimeWithinDay\<close>, \<^verbatim>\<open>DayFromYear\<close>, \<^verbatim>\<open>YearFromTime\<close>,
  \<^verbatim>\<open>MonthFromTime\<close>, \<^verbatim>\<open>DateFromTime\<close>, \<^verbatim>\<open>MakeDay\<close>, \<^verbatim>\<open>MakeTime\<close>,
  \<^verbatim>\<open>MakeDate\<close>, \<^verbatim>\<open>TimeClip\<close>, \<^verbatim>\<open>LocalTime\<close>, \<^verbatim>\<open>UTC\<close>) on integers of
  milliseconds.
\<close>

definition msPerDay :: int where "msPerDay = 86400000"
definition msPerHour :: int where "msPerHour = 3600000"
definition msPerMinute :: int where "msPerMinute = 60000"
definition msPerSecond :: int where "msPerSecond = 1000"

definition maxTime :: int where "maxTime = 8640000000000000"

definition Day :: "int \<Rightarrow> int" where
  "Day t = t div msPerDay"

definition TimeWithinDay :: "int \<Rightarrow> int" where
  "TimeWithinDay t = t mod msPerDay"

definition DaysInYear :: "int \<Rightarrow> int" where
  "DaysInYear y =
     (if y mod 4 \<noteq> 0 then 365
      else if y mod 100 \<noteq> 0 then 366
      else if y mod 400 \<noteq> 0 then 365
      else 366)"

definition DayFromYear :: "int \<Rightarrow> int" where
  "DayFromYear y =
     365 * (y - 1970) + (y - 1969) div 4 - (y - 1901) div 100 + (y - 1601) div 400"

text \<open>
  \<^verbatim>\<open>YearFromTime(t)\<close> is the largest \<open>y\<close> with \<open>DayFromYear y \<le> Day t\<close>. It is
  computed from an estimate by the mean length of a year (146097 days in 400 years),
  which is the year or the year after; \<open>YearFromDay_bounds\<close> and \<open>YearFromDay_unique\<close>
  show that the result is the year ECMA-262 defines.
\<close>

definition YearFromDay :: "int \<Rightarrow> int" where
  "YearFromDay d =
     (let y = 1970 + (400 * d + 607) div 146097
      in if DayFromYear y \<le> d then y else y - 1)"

definition YearFromTime :: "int \<Rightarrow> int" where
  "YearFromTime t = YearFromDay (Day t)"

definition leap :: "int \<Rightarrow> int" where
  "leap y = (if DaysInYear y = 366 then 1 else 0)"

definition InLeapYear :: "int \<Rightarrow> int" where
  "InLeapYear t = leap (YearFromTime t)"

definition DayWithinYear :: "int \<Rightarrow> int" where
  "DayWithinYear t = Day t - DayFromYear (YearFromTime t)"

text \<open>The month (0 to 11) of day \<open>d\<close> of a year, \<open>l\<close> being 1 in a leap year.\<close>

definition month_of_yday :: "int \<Rightarrow> int \<Rightarrow> int" where
  "month_of_yday l d =
     (if d < 31 then 0
      else if d < 59 + l then 1
      else if d < 90 + l then 2
      else if d < 120 + l then 3
      else if d < 151 + l then 4
      else if d < 181 + l then 5
      else if d < 212 + l then 6
      else if d < 243 + l then 7
      else if d < 273 + l then 8
      else if d < 304 + l then 9
      else if d < 334 + l then 10
      else 11)"

text \<open>The number of days of a year before its month \<open>m\<close> (0 to 11).\<close>

definition days_before_month :: "int \<Rightarrow> int \<Rightarrow> int" where
  "days_before_month l m =
     (if m = 0 then 0
      else if m = 1 then 31
      else if m = 2 then 59 + l
      else if m = 3 then 90 + l
      else if m = 4 then 120 + l
      else if m = 5 then 151 + l
      else if m = 6 then 181 + l
      else if m = 7 then 212 + l
      else if m = 8 then 243 + l
      else if m = 9 then 273 + l
      else if m = 10 then 304 + l
      else 334 + l)"

definition MonthFromTime :: "int \<Rightarrow> int" where
  "MonthFromTime t = month_of_yday (InLeapYear t) (DayWithinYear t)"

definition DateFromTime :: "int \<Rightarrow> int" where
  "DateFromTime t =
     DayWithinYear t - days_before_month (InLeapYear t) (MonthFromTime t) + 1"

definition WeekDay :: "int \<Rightarrow> int" where
  "WeekDay t = (Day t + 4) mod 7"

definition HourFromTime :: "int \<Rightarrow> int" where
  "HourFromTime t = (t div msPerHour) mod 24"

definition MinFromTime :: "int \<Rightarrow> int" where
  "MinFromTime t = (t div msPerMinute) mod 60"

definition SecFromTime :: "int \<Rightarrow> int" where
  "SecFromTime t = (t div msPerSecond) mod 60"

definition msFromTime :: "int \<Rightarrow> int" where
  "msFromTime t = t mod msPerSecond"

text \<open>
  \<^verbatim>\<open>MakeDay\<close> on integers: the day number of the first of month \<open>m mod 12\<close> of
  year \<open>y + m div 12\<close>, plus \<open>dt - 1\<close>. ECMA-262 lets an implementation answer
  \<^verbatim>\<open>NaN\<close> when that year is out of its range; the exact day number computed here is
  then so large that \<^verbatim>\<open>TimeClip\<close> answers \<^verbatim>\<open>NaN\<close> for every call the source makes
  (its day arguments are between 0 and 31).
\<close>

definition civil_day :: "int \<Rightarrow> int \<Rightarrow> int \<Rightarrow> int" where
  "civil_day y m dt =
     (let ym = y + m div 12; mn = m mod 12
      in DayFromYear ym + days_before_month (leap ym) mn + dt - 1)"

fun MakeDay :: "number \<Rightarrow> number \<Rightarrow> number \<Rightarrow> int option" where
  "MakeDay (Fin y) (Fin m) (Fin dt) = Some (civil_day (trunc y) (trunc m) (trunc dt))"
| "MakeDay _ _ _ = None"

fun MakeTime :: "number \<Rightarrow> number \<Rightarrow> number \<Rightarrow> number \<Rightarrow> int option" where
  "MakeTime (Fin h) (Fin m) (Fin s) (Fin milli) =
     Some (trunc h * msPerHour + trunc m * msPerMinute + trunc s * msPerSecond + trunc milli)"
| "MakeTime _ _ _ _ = None"

fun MakeDate :: "int option \<Rightarrow> int option \<Rightarrow> int option" where
  "MakeDate (Some day) (Some time) = Some (day * msPerDay + time)"
| "MakeDate _ _ = None"

text \<open>\<^verbatim>\<open>TimeClip\<close>: a time value is an integer within \<open>\<plusminus>8.64 * 10^15\<close>, or \<^verbatim>\<open>NaN\<close>.\<close>

fun TimeClip :: "number \<Rightarrow> int option" where
  "TimeClip (Fin q) = (if \<bar>q\<bar> > of_int maxTime then None else Some (trunc q))"
| "TimeClip _ = None"

definition clip :: "int option \<Rightarrow> int option" where
  "clip v = (case v of None \<Rightarrow> None | Some t \<Rightarrow> TimeClip (Fin (of_int t)))"

subsection \<open>The host's time zone\<close>

text \<open>
  The getters and setters the source uses work in local time. The time zone belongs to
  the host (for Google Apps Script, the script's time zone), so it is a parameter of the
  model: \<open>utc_offset z t\<close> is the offset in force at the instant \<open>t\<close>, and
  \<open>local_offset z w\<close> the offset ECMA-262 uses to interpret the wall-clock time \<open>w\<close>
  (where a transition skips or repeats \<open>w\<close>, the offset before the transition).
\<close>

record zone =
  utc_offset :: "int \<Rightarrow> int"
  local_offset :: "int \<Rightarrow> int"

definition LocalTime :: "zone \<Rightarrow> int \<Rightarrow> int" where
  "LocalTime z t = t + utc_offset z t"

definition UTC :: "zone \<Rightarrow> int \<Rightarrow> int" where
  "UTC z w = w - local_offset z w"

text \<open>A zone with one offset for all time; \<open>fixed_zone 0\<close> is UTC.\<close>

definition fixed_zone :: "int \<Rightarrow> zone" where
  "fixed_zone c = \<lparr>utc_offset = (\<lambda>_. c), local_offset = (\<lambda>_. c)\<rparr>"

text \<open>
  A zone with one period of shifted time: \<open>std\<close> is its standard offset, and between
  the instants \<open>on\<close> and \<open>off\<close> its offset is \<open>std + delta\<close>, with \<open>delta\<close>
  positive. The wall-clock times from \<open>on + std\<close> up to \<open>on + std + delta\<close> are skipped,
  and read with the offset \<open>std\<close> in force before the transition; those from
  \<open>off + std\<close> up to \<open>off + std + delta\<close> occur twice, and are read as the earlier
  instant.
\<close>

definition shifted_zone :: "int \<Rightarrow> int \<Rightarrow> int \<Rightarrow> int \<Rightarrow> zone" where
  "shifted_zone std delta on off =
     \<lparr>utc_offset = (\<lambda>t. if on \<le> t \<and> t < off then std + delta else std),
      local_offset = (\<lambda>w. if on + std + delta \<le> w \<and> w < off + std + delta
                           then std + delta else std)\<rparr>"

text \<open>
  Central European time around 2019: one hour ahead of UTC, two hours ahead between
  31 March 2019 01:00 UTC and 27 October 2019 01:00 UTC. The wall-clock times 02:00 to
  02:59 of 31 March 2019 are skipped.
\<close>

definition cet_2019 :: zone where
  "cet_2019 = shifted_zone 3600000 3600000 1553994000000 1572138000000"

text \<open>
  A zone that puts its clocks forward at local midnight of the first day of a month, as
  Paraguay did on 1 October 2017: four hours behind UTC, three hours behind between
  1 October 2017 04:00 UTC and 25 March 2018 03:00 UTC. The wall-clock times 00:00 to
  00:59 of 1 October 2017 are skipped.
\<close>

definition paraguay_2017 :: zone where
  "paraguay_2017 = shifted_zone (- 14400000) 3600000 1506830400000 1521946800000"

text \<open>
  A zone that skips a whole calendar day, as the Line Islands did when they moved across
  the date line: ten hours behind UTC until 31 December 1994 10:00 UTC, fourteen hours
  ahead from then on. The wall-clock day 31 December 1994 does not exist.
\<close>

definition line_islands_1994 :: zone where
  "line_islands_1994 = shifted_zone (- 36000000) 86400000 788868000000 9000000000000000"

subsection \<open>Date objects\<close>

text \<open>
  A \<^verbatim>\<open>Date\<close> holds one time value: \<open>None\<close> is \<^verbatim>\<open>NaN\<close> (an Invalid Date). The
  objects the source mutates are its own fresh copies, so a setter is a function from
  the object to the updated object.
\<close>

datatype Date = Date (timeValue: "int option")

text \<open>The invariant of every \<^verbatim>\<open>Date\<close> that exists at run time.\<close>

definition Date_ok :: "Date \<Rightarrow> bool" where
  "Date_ok d = (case timeValue d of None \<Rightarrow> True | Some t \<Rightarrow> \<bar>t\<bar> \<le> maxTime)"

definition new_Date :: "number \<Rightarrow> Date" where
  "new_Date v = Date (TimeClip v)"

definition of_tv :: "int option \<Rightarrow> number" where
  "of_tv v = (case v of None \<Rightarrow> NaN | Some t \<Rightarrow> Fin (of_int t))"

definition getTime :: "Date \<Rightarrow> number" where
  "getTime d = of_tv (timeValue d)"

definition local_field :: "zone \<Rightarrow> (int \<Rightarrow> int) \<Rightarrow> Date \<Rightarrow> number" where
  "local_field z f d = of_tv (map_option (\<lambda>t. f (LocalTime z t)) (timeValue d))"

text \<open>
  The getters of \<^verbatim>\<open>Date\<close>. \<open>Date_getMonth\<close> and \<open>Date_getDay\<close> are the methods
  \<^verbatim>\<open>getMonth\<close> and \<^verbatim>\<open>getDay\<close> of the object; the source gives the same names to
  two of its own functions, which are \<open>getMonth\<close> and \<open>getDay\<close> below.
\<close>

definition getFullYear :: "zone \<Rightarrow> Date \<Rightarrow> number" where
  "getFullYear z = local_field z YearFromTime"

definition Date_getMonth :: "zone \<Rightarrow> Date \<Rightarrow> number" where
  "Date_getMonth z = local_field z MonthFromTime"

definition getDate :: "zone \<Rightarrow> Date \<Rightarrow> number" where
  "getDate z = local_field z DateFromTime"

definition Date_getDay :: "zone \<Rightarrow> Date \<Rightarrow> number" where
  "Date_getDay z = local_field z WeekDay"

definition getHours :: "zone \<Rightarrow> Date \<Rightarrow> number" where
  "getHours z = local_field z HourFromTime"

definition getMinutes :: "zone \<Rightarrow> Date \<Rightarrow> number" where
  "getMinutes z = local_field z MinFromTime"

definition getSeconds :: "zone \<Rightarrow> Date \<Rightarrow> number" where
  "getSeconds z = local_field z SecFromTime"

definition getMilliseconds :: "zone \<Rightarrow> Date \<Rightarrow> number" where
  "getMilliseconds z = local_field z msFromTime"

text \<open>The last step of every setter: \<open>TimeClip(UTC(newDate))\<close>.\<close>

definition store_local :: "zone \<Rightarrow> int option \<Rightarrow> Date" where
  "store_local z w = Date (clip (map_option (UTC z) w))"

definition setDate :: "zone \<Rightarrow> number \<Rightarrow> Date \<Rightarrow> Date" where
  "setDate z dt d =
     (case timeValue d of
        None \<Rightarrow> d
      | Some t0 \<Rightarrow>
          let t = LocalTime z t0
          in store_local z
               (MakeDate (MakeDay (Fin (of_int (YearFromTime t))) (Fin (of_int (MonthFromTime t))) dt)
                  (Some (TimeWithinDay t))))"

definition setMonth :: "zone \<Rightarrow> number \<Rightarrow> number \<Rightarrow> Date \<Rightarrow> Date" where
  "setMonth z m dt d =
     (case timeValue d of
        None \<Rightarrow> d
      | Some t0 \<Rightarrow>
          let t = LocalTime z t0
          in store_local z
               (MakeDate (MakeDay (Fin (of_int (YearFromTime t))) m dt) (Some (TimeWithinDay t))))"

text \<open>\<^verbatim>\<open>setFullYear\<close> alone starts from time 0 when the date is invalid.\<close>

definition setFullYear :: "zone \<Rightarrow> number \<Rightarrow> number \<Rightarrow> number \<Rightarrow> Date \<Rightarrow> Date" where
  "setFullYear z y m dt d =
     (let t = (case timeValue d of None \<Rightarrow> 0 | Some t0 \<Rightarrow> LocalTime z t0)
      in store_local z (MakeDate (MakeDay y m dt) (Some (TimeWithinDay t))))"

definition setHours :: "zone \<Rightarrow> number \<Rightarrow> number \<Rightarrow> number \<Rightarrow> number \<Rightarrow> Date \<Rightarrow> Date" where
  "setHours z h m s milli d =
     (case timeValue d of
        None \<Rightarrow> d
      | Some t0 \<Rightarrow>
          let t = LocalTime z t0
          in store_local z (MakeDate (Some (Day t)) (MakeTime h m s milli)))"

text \<open>
  \<^verbatim>\<open>new Date(year, month, day, hours, minutes, seconds, ms)\<close>, the constructor the
  examples of the source use (for a year outside 0 to 99).
\<close>

definition new_Date_local ::
  "zone \<Rightarrow> int \<Rightarrow> int \<Rightarrow> int \<Rightarrow> int \<Rightarrow> int \<Rightarrow> int \<Rightarrow> int \<Rightarrow> Date" where
  "new_Date_local z y m dt h mi s milli =
     store_local z
       (MakeDate (MakeDay (Fin (of_int y)) (Fin (of_int m)) (Fin (of_int dt)))
          (MakeTime (Fin (of_int h)) (Fin (of_int mi)) (Fin (of_int s)) (Fin (of_int milli))))"

section \<open>The functions of the source\<close>

datatype error = TypeError nat nat | RangeError string

definition bindE :: "error + 'a \<Rightarrow> ('a \<Rightarrow> error + 'b) \<Rightarrow> error + 'b" where
  "bindE r f = (case r of Inl e \<Rightarrow> Inl e | Inr v \<Rightarrow> f v)"

definition MILLISECONDS_IN_MINUTE :: rat where
  "MILLISECONDS_IN_MINUTE = 60000"

text \<open>
  \<^verbatim>\<open>requiredArgs(required, args)\<close> throws a \<^verbatim>\<open>TypeError\<close> when fewer arguments than
  required were passed. The error carries the two counts the message is built from.
  The functions below have the arity of their TypeScript signature, so each passes its
  own number of parameters as \<^verbatim>\<open>arguments.length\<close>.
\<close>

definition requiredArgs :: "nat \<Rightarrow> nat \<Rightarrow> error + unit" where
  "requiredArgs required present =
     (if present < required then Inl (TypeError required present) else Inr ())"

text \<open>
  What a caller can pass where a date is expected: a \<^verbatim>\<open>Date\<close>, a number, a string,
  or anything else (\<^verbatim>\<open>undefined\<close>, \<^verbatim>\<open>null\<close>, another object). For a string
  \<^verbatim>\<open>toDate\<close> also writes a warning to the console, which is not part of its result.
\<close>

datatype raw = RDate Date | RNumber number | RString string | ROther

fun toDate :: "raw \<Rightarrow> error + Date" where
  "toDate (RDate d) = bindE (requiredArgs 1 1) (\<lambda>_. Inr (new_Date (getTime d)))"
| "toDate (RNumber n) = bindE (requiredArgs 1 1) (\<lambda>_. Inr (new_Date n))"
| "toDate _ = bindE (requiredArgs 1 1) (\<lambda>_. Inr (new_Date NaN))"

text \<open>The argument of \<^verbatim>\<open>toInteger\<close>: \<^verbatim>\<open>number | boolean | null\<close>.\<close>

datatype dirty_number = DNull | DBool bool | DNum number

fun toInteger :: "dirty_number \<Rightarrow> number" where
  "toInteger DNull = NaN"
| "toInteger (DBool _) = NaN"
| "toInteger (DNum n) =
     (if isNaN n then n
      else if js_lt n (Fin 0) then Math_ceil n else Math_floor n)"

definition differenceInMilliseconds :: "raw \<Rightarrow> raw \<Rightarrow> error + number" where
  "differenceInMilliseconds dirtyDateLeft dirtyDateRight =
     bindE (requiredArgs 2 2) (\<lambda>_.
     bindE (toDate dirtyDateLeft) (\<lambda>dateLeft.
     bindE (toDate dirtyDateRight) (\<lambda>dateRight.
       Inr (js_sub (getTime dateLeft) (getTime dateRight)))))"

definition differenceInMinutes :: "raw \<Rightarrow> raw \<Rightarrow> error + number" where
  "differenceInMinutes dirtyDateLeft dirtyDateRight =
     bindE (requiredArgs 2 2) (\<lambda>_.
     bindE (differenceInMilliseconds dirtyDateLeft dirtyDateRight) (\<lambda>ms.
       let diff = js_div_pos ms MILLISECONDS_IN_MINUTE
       in Inr (if js_gt diff (Fin 0) then Math_floor diff else Math_ceil diff)))"

definition getMonth :: "zone \<Rightarrow> raw \<Rightarrow> error + number" where
  "getMonth z dirtyDate =
     bindE (requiredArgs 1 1) (\<lambda>_.
     bindE (toDate dirtyDate) (\<lambda>date. Inr (Date_getMonth z date)))"

text \<open>
  An interval is an object with the properties \<^verbatim>\<open>start\<close> and \<^verbatim>\<open>end\<close>. A missing
  interval (\<open>None\<close>) is replaced by the empty object, whose two properties are
  \<^verbatim>\<open>undefined\<close>.
\<close>

record Interval =
  start :: raw
  end' :: raw

definition isWithinInterval :: "raw \<Rightarrow> Interval option \<Rightarrow> error + bool" where
  "isWithinInterval dirtyDate dirtyInterval =
     bindE (requiredArgs 2 2) (\<lambda>_.
       let interval = (case dirtyInterval of
                         None \<Rightarrow> \<lparr>start = ROther, end' = ROther\<rparr>
                       | Some i \<Rightarrow> i)
       in
     bindE (toDate dirtyDate) (\<lambda>d.
       let time = getTime d in
     bindE (toDate (start interval)) (\<lambda>s.
       let startTime = getTime s in
     bindE (toDate (end' interval)) (\<lambda>e.
       let endTime = getTime e in
       if \<not> js_le startTime endTime then Inl (RangeError ''Invalid interval'')
       else Inr (js_ge time startTime \<and> js_le time endTime)))))"

definition getDaysInMonth :: "zone \<Rightarrow> raw \<Rightarrow> error + number" where
  "getDaysInMonth z dirtyDate =
     bindE (requiredArgs 1 1) (\<lambda>_.
     bindE (toDate dirtyDate) (\<lambda>date.
       let year = getFullYear z date;
           monthIndex = Date_getMonth z date;
           lastDayOfMonth = new_Date (Fin 0);
           lastDayOfMonth = setFullYear z year (js_add monthIndex (Fin 1)) (Fin 0) lastDayOfMonth;
           lastDayOfMonth = setHours z (Fin 0) (Fin 0) (Fin 0) (Fin 0) lastDayOfMonth
       in Inr (getDate z lastDayOfMonth)))"

definition getDay :: "zone \<Rightarrow> raw \<Rightarrow> error + number" where
  "getDay z dirtyDate =
     bindE (requiredArgs 1 1) (\<lambda>_.
     bindE (toDate dirtyDate) (\<lambda>date. Inr (Date_getDay z date)))"

definition isBefore :: "raw \<Rightarrow> raw \<Rightarrow> error + bool" where
  "isBefore dirtyDate dirtyDateToCompare =
     bindE (requiredArgs 2 2) (\<lambda>_.
     bindE (toDate dirtyDate) (\<lambda>date.
     bindE (toDate dirtyDateToCompare) (\<lambda>dateToCompare.
       Inr (js_lt (getTime date) (getTime dateToCompare)))))"

definition startOfMonth :: "zone \<Rightarrow> raw \<Rightarrow> error + Date" where
  "startOfMonth z dirtyDate =
     bindE (requiredArgs 1 1) (\<lambda>_.
     bindE (toDate dirtyDate) (\<lambda>date.
       let date = setDate z (Fin 1) date;
           date = setHours z (Fin 0) (Fin 0) (Fin 0) (Fin 0) date
       in Inr date))"

definition endOfMonth :: "zone \<Rightarrow> raw \<Rightarrow> error + Date" where
  "endOfMonth z dirtyDate =
     bindE (requiredArgs 1 1) (\<lambda>_.
     bindE (toDate dirtyDate) (\<lambda>date.
       let month = Date_getMonth z date;
           date = setFullYear z (getFullYear z date) (js_add month (Fin 1)) (Fin 0) date;
           date = setHours z (Fin 23) (Fin 59) (Fin 59) (Fin 999) date
       in Inr date))"

definition addMonths :: "zone \<Rightarrow> raw \<Rightarrow> number \<Rightarrow> error + Date" where
  "addMonths z dirtyDate dirtyAmount =
     bindE (requiredArgs 2 2) (\<lambda>_.
     bindE (toDate dirtyDate) (\<lambda>date.
       let amount = toInteger (DNum dirtyAmount) in
       if isNaN amount then Inr (new_Date NaN)
       else if js_not amount then Inr date
       else
         let dayOfMonth = getDate z date;
             endOfDesiredMonth = new_Date (getTime date);
             endOfDesiredMonth =
               setMonth z (js_add (js_add (Date_getMonth z date) amount) (Fin 1)) (Fin 0)
                 endOfDesiredMonth;
             daysInMonth = getDate z endOfDesiredMonth
         in if js_ge dayOfMonth daysInMonth then Inr endOfDesiredMonth
            else Inr (setFullYear z (getFullYear z endOfDesiredMonth)
                        (Date_getMonth z endOfDesiredMonth) dayOfMonth date)))"


section \<open>Notions the claims are stated with\<close>

text \<open>
  The epoch-millisecond value of the instant an input canonicalises to: \<open>None\<close> when
  the instant is invalid (its time value is \<^verbatim>\<open>NaN\<close>).
\<close>

definition epoch :: "raw \<Rightarrow> int option" where
  "epoch r = (case toDate r of Inl _ \<Rightarrow> None | Inr d \<Rightarrow> timeValue d)"

text \<open>
  The instant \<open>h:m:s\<close> after the instant \<open>t0\<close>, as a numeric timestamp.
\<close>

definition at_clock :: "int \<Rightarrow> int \<Rightarrow> int \<Rightarrow> int \<Rightarrow> raw" where
  "at_clock t0 h m s = RNumber (Fin (of_int (t0 + h * msPerHour + m * msPerMinute + s * msPerSecond)))"

text \<open>
  The difference \<open>k\<close> of two time values as a double holds it. A time value is at most
  \<open>8.64 * 10^15\<close> in magnitude, so \<open>k\<close> is below \<open>2^54\<close>: it is exact up to \<open>2^53\<close>,
  and from there rounded to the nearest even integer, to the multiple of 4 when \<open>k\<close>
  is odd and its two neighbours are equally near.
\<close>

definition rounded_difference :: "int \<Rightarrow> int" where
  "rounded_difference k =
     (if \<bar>k\<bar> \<le> 2 ^ 53 then k else 2 * round_half_even (of_int k / 2))"

text \<open>The number of days of month \<open>m\<close> (0 to 11) of year \<open>y\<close> in the Gregorian calendar.\<close>

definition days_in_month :: "int \<Rightarrow> int \<Rightarrow> int" where
  "days_in_month y m =
     (if m = 1 then 28 + leap y
      else if m = 3 \<or> m = 5 \<or> m = 8 \<or> m = 10 then 30
      else 31)"

text \<open>
  The wall-clock time "day \<open>dt\<close> of month \<open>m\<close> of year \<open>y\<close>, \<open>tod\<close> milliseconds
  after midnight", in milliseconds.
\<close>

definition wall_clock :: "int \<Rightarrow> int \<Rightarrow> int \<Rightarrow> int \<Rightarrow> int" where
  "wall_clock y m dt tod = civil_day y m dt * msPerDay + tod"

text \<open>The wall-clock times that name a day of the calendar and a time of that day.\<close>

definition valid_wall :: "int \<Rightarrow> int \<Rightarrow> int \<Rightarrow> int \<Rightarrow> bool" where
  "valid_wall y m dt tod =
     (0 \<le> m \<and> m < 12 \<and> 1 \<le> dt \<and> dt \<le> days_in_month y m \<and> 0 \<le> tod \<and> tod < msPerDay)"

text \<open>
  What a setter makes of a wall-clock time \<open>w\<close> in the zone \<open>z\<close>: the instant it stores
  is within the range of \<^verbatim>\<open>Date\<close> and falls on the local calendar day of \<open>w\<close>
  (\<open>lands_on_day\<close>), or at the wall-clock time \<open>w\<close> itself (\<open>lands_exactly\<close>, which
  fails when a transition of the zone skips \<open>w\<close>).
\<close>

definition lands_on_day :: "zone \<Rightarrow> int \<Rightarrow> bool" where
  "lands_on_day z w = (\<bar>UTC z w\<bar> \<le> maxTime \<and> Day (LocalTime z (UTC z w)) = Day w)"

definition lands_exactly :: "zone \<Rightarrow> int \<Rightarrow> bool" where
  "lands_exactly z w = (\<bar>UTC z w\<bar> \<le> maxTime \<and> LocalTime z (UTC z w) = w)"

section \<open>Basic facts\<close>

lemma requiredArgs_same [simp]: "requiredArgs n n = Inr ()"
  by (simp add: requiredArgs_def)

lemma bindE_Inr [simp]: "bindE (Inr v) f = f v"
  by (simp add: bindE_def)

lemma bindE_Inl [simp]: "bindE (Inl e) f = Inl e"
  by (simp add: bindE_def)

lemma toDate_epoch: "toDate r = Inr (Date (epoch r))"
  by (cases r) (simp_all add: epoch_def)

lemma trunc_of_int [simp]: "trunc (of_int t) = t"
  by (simp add: trunc_def)

lemma of_int_less_abs_iff: "(of_int m < \<bar>of_int t :: rat\<bar>) = (m < \<bar>t\<bar>)"
  by (simp only: of_int_abs [symmetric] of_int_less_iff)

lemma TimeClip_of_int:
  "TimeClip (Fin (of_int t)) = (if \<bar>t\<bar> \<le> maxTime then Some t else None)"
  by (simp only: TimeClip.simps of_int_less_abs_iff trunc_of_int) auto

lemma clip_Some: "clip (Some t) = (if \<bar>t\<bar> \<le> maxTime then Some t else None)"
  by (simp only: clip_def option.case TimeClip_of_int)

lemma clip_None [simp]: "clip None = None"
  by (simp add: clip_def)

lemma epoch_RDate: "epoch (RDate d) = clip (timeValue d)"
  by (simp add: epoch_def new_Date_def getTime_def of_tv_def clip_def split: option.splits)

lemma epoch_RDate_ok: "Date_ok d \<Longrightarrow> epoch (RDate d) = timeValue d"
  by (cases d) (auto simp: epoch_RDate Date_ok_def clip_Some split: option.splits)

lemma epoch_RNumber: "epoch (RNumber n) = TimeClip n"
  by (simp add: epoch_def new_Date_def)

lemma epoch_other [simp]: "epoch (RString s) = None" "epoch ROther = None"
  by (simp_all add: epoch_def new_Date_def)

lemma abs_trunc_le: "\<bar>of_int (trunc q)\<bar> \<le> \<bar>q\<bar>"
proof (cases "q < 0")
  case True
  then have "of_int \<lceil>q\<rceil> \<le> (0::rat)" "q \<le> of_int \<lceil>q\<rceil>"
    by (simp_all add: ceiling_le_iff)
  with True show ?thesis by (simp add: trunc_def)
next
  case False
  then have "(0::rat) \<le> of_int \<lfloor>q\<rfloor>" "of_int \<lfloor>q\<rfloor> \<le> q"
    by simp_all
  with False show ?thesis by (simp add: trunc_def)
qed

lemma epoch_range:
  assumes "epoch r = Some t"
  shows "\<bar>t\<bar> \<le> maxTime"
proof (cases r)
  case (RDate d)
  with assms show ?thesis
    by (cases "timeValue d") (auto simp: epoch_RDate clip_Some split: if_splits)
next
  case (RNumber n)
  with assms obtain q where q: "n = Fin q" "\<not> \<bar>q\<bar> > of_int maxTime" "t = trunc q"
    by (cases n) (auto simp: epoch_RNumber split: if_splits)
  have "(of_int \<bar>t\<bar> :: rat) \<le> of_int maxTime"
    using abs_trunc_le [of q] q by simp
  then show ?thesis by (simp only: of_int_le_iff)
next
  case (RString x3)
  with assms show ?thesis by simp
next
  case ROther
  with assms show ?thesis by simp
qed

lemma getTime_Date [simp]: "getTime (Date v) = of_tv v"
  by (simp add: getTime_def)

lemma of_tv_simps [simp]: "of_tv None = NaN" "of_tv (Some t) = Fin (of_int t)"
  by (simp_all add: of_tv_def)


lemma js_le_Fin [simp]: "js_le (Fin a) (Fin b) = (a \<le> b)"
  by (auto simp: js_le_def)

lemma js_le_NaN [simp]: "js_le NaN x = False" "js_le x NaN = False"
  by (simp_all add: js_le_def)

lemma js_le_of_tv:
  "js_le (of_tv a) (of_tv b) = (case (a, b) of (Some x, Some y) \<Rightarrow> x \<le> y | _ \<Rightarrow> False)"
  by (cases a; cases b) simp_all

lemma isWithinInterval_eval:
  "isWithinInterval date (Some i) =
     (if js_le (of_tv (epoch (start i))) (of_tv (epoch (end' i)))
      then Inr (js_le (of_tv (epoch (start i))) (of_tv (epoch date)) \<and>
                js_le (of_tv (epoch date)) (of_tv (epoch (end' i))))
      else Inl (RangeError ''Invalid interval''))"
  by (simp add: isWithinInterval_def toDate_epoch js_ge_def Let_def)

section \<open>Interval membership\<close>

text \<open>
  Claim C3. For every date and every interval, \<^verbatim>\<open>isWithinInterval\<close> raises the
  invalid-interval error exactly when \<^verbatim>\<open>start.epoch <= end.epoch\<close> does not hold,
  which includes an endpoint whose epoch is \<^verbatim>\<open>NaN\<close> (and a missing interval);
  otherwise it returns \<^verbatim>\<open>start.epoch <= date.epoch <= end.epoch\<close>, which is true
  when the date is the start or the end of the interval.
\<close>

theorem isWithinInterval_contract:
  "isWithinInterval date (Some i) =
     (case (epoch (start i), epoch (end' i)) of
        (Some s, Some e) \<Rightarrow>
          if s \<le> e
          then Inr (case epoch date of None \<Rightarrow> False | Some t \<Rightarrow> s \<le> t \<and> t \<le> e)
          else Inl (RangeError ''Invalid interval'')
      | _ \<Rightarrow> Inl (RangeError ''Invalid interval''))
   \<and> isWithinInterval (start i) (Some i) =
       (if js_le (of_tv (epoch (start i))) (of_tv (epoch (end' i)))
        then Inr True else Inl (RangeError ''Invalid interval''))
   \<and> isWithinInterval (end' i) (Some i) =
       (if js_le (of_tv (epoch (start i))) (of_tv (epoch (end' i)))
        then Inr True else Inl (RangeError ''Invalid interval''))
   \<and> isWithinInterval date None = Inl (RangeError ''Invalid interval'')"
proof -
  have a: "isWithinInterval date (Some i) =
     (case (epoch (start i), epoch (end' i)) of
        (Some s, Some e) \<Rightarrow>
          if s \<le> e
          then Inr (case epoch date of None \<Rightarrow> False | Some t \<Rightarrow> s \<le> t \<and> t \<le> e)
          else Inl (RangeError ''Invalid interval'')
      | _ \<Rightarrow> Inl (RangeError ''Invalid interval''))"
    by (simp add: isWithinInterval_eval js_le_of_tv split: option.splits)
  have b: "isWithinInterval (start i) (Some i) =
       (if js_le (of_tv (epoch (start i))) (of_tv (epoch (end' i)))
        then Inr True else Inl (RangeError ''Invalid interval''))"
    by (auto simp: isWithinInterval_eval js_le_of_tv split: option.splits)
  have c: "isWithinInterval (end' i) (Some i) =
       (if js_le (of_tv (epoch (start i))) (of_tv (epoch (end' i)))
        then Inr True else Inl (RangeError ''Invalid interval''))"
    by (auto simp: isWithinInterval_eval js_le_of_tv split: option.splits)
  have d: "isWithinInterval date None = Inl (RangeError ''Invalid interval'')"
    by (simp add: isWithinInterval_def toDate_epoch Let_def)
  from a b c d show ?thesis by blast
qed

text \<open>
  Claim C10. When both endpoints are valid and \<^verbatim>\<open>start.epoch <= end.epoch\<close>, a date
  that canonicalises to an invalid instant is answered \<^verbatim>\<open>false\<close>, with no error.
\<close>

theorem isWithinInterval_invalid_date:
  assumes "epoch (start i) = Some s" and "epoch (end' i) = Some e" and "s \<le> e"
    and "epoch date = None"
  shows "isWithinInterval date (Some i) = Inr False"
  using assms by (simp add: isWithinInterval_eval)

theorem isWithinInterval_invalid_date_witness:
  "epoch (start \<lparr>start = RNumber (Fin 0), end' = RNumber (Fin 1)\<rparr>) = Some 0
   \<and> epoch (end' \<lparr>start = RNumber (Fin 0), end' = RNumber (Fin 1)\<rparr>) = Some 1
   \<and> (0::int) \<le> 1
   \<and> epoch (RString ''2014-01-03'') = None
   \<and> isWithinInterval (RString ''2014-01-03'')
        (Some \<lparr>start = RNumber (Fin 0), end' = RNumber (Fin 1)\<rparr>) = Inr False"
proof -
  have 1: "epoch (start \<lparr>start = RNumber (Fin 0), end' = RNumber (Fin 1)\<rparr>) = Some 0"
    by (simp add: epoch_RNumber maxTime_def trunc_def)
  have 2: "epoch (end' \<lparr>start = RNumber (Fin 0), end' = RNumber (Fin 1)\<rparr>) = Some 1"
    by (simp add: epoch_RNumber maxTime_def trunc_def)
  have 3: "(0::int) \<le> 1" by simp
  have 4: "epoch (RString ''2014-01-03'') = None" by simp
  from 1 2 3 4 isWithinInterval_invalid_date [OF 1 2 3 4] show ?thesis by blast
qed


section \<open>Integer coercion\<close>

text \<open>
  Claim C5, as stated, says that a value whose numeric conversion is not finite yields
  \<^verbatim>\<open>NaN\<close>. The source tests \<^verbatim>\<open>isNaN\<close>, not finiteness: an infinity passes the test
  and \<^verbatim>\<open>Math.floor\<close> or \<^verbatim>\<open>Math.ceil\<close> returns it as it is.
\<close>

theorem toInteger_infinity_counterexample:
  "toInteger (DNum PosInf) = PosInf \<and> toInteger (DNum PosInf) \<noteq> NaN
   \<and> toInteger (DNum NegInf) = NegInf \<and> toInteger (DNum NegInf) \<noteq> NaN"
  by (simp add: isNaN_def)

text \<open>
  Claim C5, amended. \<^verbatim>\<open>null\<close> and the booleans yield \<^verbatim>\<open>NaN\<close>; \<^verbatim>\<open>NaN\<close> yields
  \<^verbatim>\<open>NaN\<close>; an infinity is returned unchanged; a finite value is truncated towards
  zero, by floor when it is at least 0 and by ceiling when it is below 0. So
  \<^verbatim>\<open>toInteger(-2.5)\<close> is -2, \<^verbatim>\<open>toInteger(2.5)\<close> is 2 and \<^verbatim>\<open>toInteger(true)\<close> is
  \<^verbatim>\<open>NaN\<close>.
\<close>

theorem toInteger_contract:
  "toInteger DNull = NaN
   \<and> toInteger (DBool b) = NaN
   \<and> toInteger (DNum NaN) = NaN
   \<and> toInteger (DNum PosInf) = PosInf
   \<and> toInteger (DNum NegInf) = NegInf
   \<and> toInteger (DNum (Fin q)) = Fin (of_int (if 0 \<le> q then \<lfloor>q\<rfloor> else \<lceil>q\<rceil>))
   \<and> toInteger (DNum (Fin q)) = Fin (of_int (sgn \<lfloor>q\<rfloor> * \<lfloor>\<bar>q\<bar>\<rfloor>))
   \<and> toInteger (DNum (Fin (- 5 / 2))) = Fin (- 2)
   \<and> toInteger (DNum (Fin (5 / 2))) = Fin 2
   \<and> toInteger (DBool True) = NaN"
proof -
  have fin: "toInteger (DNum (Fin q)) = Fin (of_int (if 0 \<le> q then \<lfloor>q\<rfloor> else \<lceil>q\<rceil>))" for q
    by (simp add: isNaN_def)
  have "(if 0 \<le> q then \<lfloor>q\<rfloor> else \<lceil>q\<rceil>) = sgn \<lfloor>q\<rfloor> * \<lfloor>\<bar>q\<bar>\<rfloor>"
  proof (cases "0 \<le> q")
    case True
    have "sgn n * n = n" if "0 \<le> n" for n :: int
      using that by (simp add: sgn_if)
    moreover from True have "0 \<le> \<lfloor>q\<rfloor>" by simp
    ultimately have "sgn \<lfloor>q\<rfloor> * \<lfloor>q\<rfloor> = \<lfloor>q\<rfloor>" by blast
    with True show ?thesis by simp
  next
    case False
    then have "\<lfloor>q\<rfloor> < 0" by (simp add: floor_less_iff)
    then have "sgn \<lfloor>q\<rfloor> = - 1" by simp
    moreover from False have "\<lfloor>\<bar>q\<bar>\<rfloor> = - \<lceil>q\<rceil>"
      by (simp add: ceiling_def)
    ultimately show ?thesis using False by simp
  qed
  then have sg: "toInteger (DNum (Fin q)) = Fin (of_int (sgn \<lfloor>q\<rfloor> * \<lfloor>\<bar>q\<bar>\<rfloor>))"
    by (simp only: fin)
  have m: "toInteger (DNum (Fin (- 5 / 2))) = Fin (- 2)"
    by code_simp
  have p: "toInteger (DNum (Fin (5 / 2))) = Fin 2"
    by code_simp
  from fin sg m p show ?thesis by (simp add: isNaN_def)
qed

section \<open>Rounding to a double\<close>

lemma bitlen_rat:
  assumes "0 < a"
  shows "(2::rat) powi (bitlen a - 1) \<le> of_int a" "of_int a < (2::rat) powi bitlen a"
proof -
  from assms have b: "1 \<le> bitlen a"
    using bitlen_eq_zero_iff [of a] bitlen_nonneg [of a] by linarith
  note bb = bitlen_bounds [OF assms]
  have "(of_int (2 ^ nat (bitlen a - 1)) :: rat) \<le> of_int a"
    using bb by (simp only: of_int_le_iff)
  then show "(2::rat) powi (bitlen a - 1) \<le> of_int a"
    using b by (simp add: power_int_def)
  have "(of_int a :: rat) < of_int (2 ^ nat (bitlen a))"
    using bb by (simp only: of_int_less_iff)
  then show "of_int a < (2::rat) powi bitlen a"
    using b by (simp add: power_int_def)
qed

lemma ilog2_bounds:
  assumes "0 < q"
  shows "2 powi ilog2 q \<le> q" and "q < 2 powi (ilog2 q + 1)"
proof -
  obtain a b where ab: "quotient_of q = (a, b)" by (cases "quotient_of q")
  have b: "0 < b" using ab by (rule quotient_of_denom_pos)
  have q: "q = of_int a / of_int b" using ab by (rule quotient_of_div)
  have a: "0 < a"
    using assms b unfolding q by (simp add: zero_less_divide_iff)
  note A = bitlen_rat [OF a] and B = bitlen_rat [OF b]
  have ra: "(0::rat) < of_int a" and rb: "(0::rat) < of_int b" using a b by simp_all
  have lo: "(2::rat) powi (bitlen a - bitlen b - 1) \<le> q"
  proof -
    have "(2::rat) powi (bitlen a - bitlen b - 1) = 2 powi (bitlen a - 1) / 2 powi bitlen b"
      by (simp add: power_int_diff)
    also have "\<dots> \<le> of_int a / 2 powi bitlen b"
      using A(1) by (simp add: divide_right_mono)
    also have "\<dots> \<le> of_int a / of_int b"
      using B(2) ra rb by (simp add: frac_le)
    finally show ?thesis unfolding q .
  qed
  have hi: "q < (2::rat) powi (bitlen a - bitlen b + 1)"
  proof -
    have "of_int a / of_int b < (2::rat) powi bitlen a / of_int b"
      using A(2) rb by (simp add: divide_strict_right_mono)
    also have "\<dots> \<le> 2 powi bitlen a / 2 powi (bitlen b - 1)"
      using B(1) by (simp add: frac_le)
    also have "\<dots> = 2 powi (bitlen a - bitlen b + 1)"
      by (simp add: power_int_diff power_int_add)
    finally show ?thesis unfolding q .
  qed
  show "2 powi ilog2 q \<le> q"
    using lo by (simp add: ilog2_def ab Let_def)
  show "q < 2 powi (ilog2 q + 1)"
    using hi by (auto simp add: ilog2_def ab Let_def not_le)
qed

lemma ilog2_unique:
  assumes "2 powi e \<le> q" and "q < 2 powi (e + 1)"
  shows "ilog2 q = e"
proof -
  have q: "0 < q"
    using assms(1) zero_less_power_int [of "2::rat" e] by linarith
  note b = ilog2_bounds [OF q]
  have "\<not> ilog2 q < e"
  proof
    assume "ilog2 q < e"
    then have "(2::rat) powi (ilog2 q + 1) \<le> 2 powi e"
      by (intro power_int_increasing) simp_all
    with b(2) assms(1) show False by linarith
  qed
  moreover have "\<not> e < ilog2 q"
  proof
    assume "e < ilog2 q"
    then have "(2::rat) powi (e + 1) \<le> 2 powi ilog2 q"
      by (intro power_int_increasing) simp_all
    with b(1) assms(2) show False by linarith
  qed
  ultimately show ?thesis by linarith
qed

lemma round_half_even_of_int [simp]: "round_half_even (of_int n) = n"
  by (simp add: round_half_even_def)

lemma round_half_even_error: "\<bar>of_int (round_half_even x) - x\<bar> \<le> 1 / 2"
proof -
  define f where "f = \<lfloor>x\<rfloor>"
  have b: "of_int f \<le> x" "x < of_int f + 1" unfolding f_def by linarith+
  have r: "round_half_even x =
      (if x - of_int f < 1 / 2 then f else if 1 / 2 < x - of_int f then f + 1
       else if even f then f else f + 1)"
    by (simp add: round_half_even_def Let_def f_def)
  show ?thesis
  proof (cases "x - of_int f < 1 / 2")
    case True
    with b r show ?thesis by simp
  next
    case False
    note nl = this
    show ?thesis
    proof (cases "1 / 2 < x - of_int f")
      case True
      with nl b r show ?thesis by simp
    next
      case False
      with nl have "x - of_int f = 1 / 2" by linarith
      with b r show ?thesis by (cases "even f") simp_all
    qed
  qed
qed

lemma round_half_even_half:
  "round_half_even (of_int f + 1 / 2) = (if even f then f else f + 1)"
proof -
  have "\<lfloor>(of_int f :: rat) + 1 / 2\<rfloor> = f" by linarith
  then show ?thesis by (simp add: round_half_even_def Let_def)
qed

lemma two_powi_le: "a \<le> b \<Longrightarrow> (2::rat) powi a \<le> 2 powi b"
  by (rule power_int_increasing) simp_all

lemma ilog2_less:
  assumes "0 < q" and "q < 2 powi b"
  shows "ilog2 q < b"
proof (rule ccontr)
  assume "\<not> ilog2 q < b"
  then have "(2::rat) powi b \<le> 2 powi ilog2 q" by (intro two_powi_le) simp
  with ilog2_bounds(1) [OF assms(1)] assms(2) show False by linarith
qed

lemma ilog2_ge:
  assumes "2 powi b \<le> q"
  shows "b \<le> ilog2 q"
proof (rule ccontr)
  assume "\<not> b \<le> ilog2 q"
  then have "(2::rat) powi (ilog2 q + 1) \<le> 2 powi b" by (intro two_powi_le) simp
  moreover have "0 < q"
    using assms zero_less_power_int [of "2::rat" b] by linarith
  ultimately show False using ilog2_bounds(2) [of q] assms by linarith
qed

lemma fl_error:
  assumes "q \<noteq> 0" and "- 1022 \<le> ilog2 \<bar>q\<bar>"
  shows "\<bar>fl q - q\<bar> \<le> 2 powi (ilog2 \<bar>q\<bar> - 53)"
proof -
  define u :: rat where "u = 2 powi (ilog2 \<bar>q\<bar> - 52)"
  have u: "0 < u" by (simp add: u_def)
  have f: "fl q = of_int (round_half_even (q / u)) * u"
    using assms by (simp add: fl_def u_def max_def Let_def)
  have "fl q - q = (of_int (round_half_even (q / u)) - q / u) * u"
    using u by (simp add: f algebra_simps)
  then have "\<bar>fl q - q\<bar> = \<bar>of_int (round_half_even (q / u)) - q / u\<bar> * u"
    using u by (simp add: abs_mult)
  also have "\<dots> \<le> 1 / 2 * u"
    using round_half_even_error [of "q / u"] u by (intro mult_right_mono) simp_all
  also have "1 / 2 * u = 2 powi (ilog2 \<bar>q\<bar> - 53)"
    by (simp add: u_def power_int_diff)
  finally show ?thesis .
qed

lemma fl_exact_multiple:
  assumes "q \<noteq> 0" and "max (ilog2 \<bar>q\<bar>) (- 1022) = e" and "q = of_int n * 2 powi (e - 52)"
  shows "fl q = q"
proof -
  define u :: rat where "u = 2 powi (e - 52)"
  have u: "0 < u" by (simp add: u_def)
  have "q / u = of_int n"
    using assms(3) u by (simp add: u_def [symmetric])
  then have "fl q = of_int n * u"
    using assms(1) by (simp add: fl_def assms(2) u_def [symmetric] Let_def)
  then show ?thesis using assms(3) by (simp add: u_def)
qed

lemma fl_of_int_exact:
  assumes "\<bar>k\<bar> \<le> 2 ^ 53"
  shows "fl (of_int k) = of_int k"
proof (cases "k = 0")
  case True
  then show ?thesis by (simp add: fl_def)
next
  case False
  define q :: rat where "q = \<bar>of_int k\<bar>"
  define e where "e = ilog2 q"
  have q1: "1 \<le> q"
    using False unfolding q_def by (simp flip: of_int_abs)
  have q53: "q \<le> 2 powi 53"
  proof -
    have "(of_int \<bar>k\<bar> :: rat) \<le> of_int (2 ^ 53)"
      using assms by (simp only: of_int_le_iff)
    then show ?thesis by (simp add: q_def)
  qed
  have e0: "0 \<le> e"
    unfolding e_def using q1 by (intro ilog2_ge) simp
  have e53: "e \<le> 53"
  proof -
    have "q < 2 powi 54" using q53 by simp
    from ilog2_less [OF _ this] q1 show ?thesis unfolding e_def by simp
  qed
  have m: "max (ilog2 \<bar>of_int k :: rat\<bar>) (- 1022) = e"
    using e0 by (simp add: e_def q_def max_def)
  have nz: "(of_int k :: rat) \<noteq> 0" using False by simp
  show ?thesis
  proof (cases "e \<le> 52")
    case True
    have "(of_int k :: rat) = of_int (k * 2 ^ nat (52 - e)) * 2 powi (e - 52)"
    proof -
      have "(2::rat) ^ nat (52 - e) = 2 powi (52 - e)"
        using True by (simp add: power_int_def)
      then have "(of_int (k * 2 ^ nat (52 - e)) :: rat) * 2 powi (e - 52)
          = of_int k * (2 powi (52 - e) * 2 powi (e - 52))"
        by simp
      also have "(2::rat) powi (52 - e) * 2 powi (e - 52) = 1"
        by (simp flip: power_int_add)
      finally show ?thesis by simp
    qed
    then show ?thesis
      by (rule fl_exact_multiple [OF nz m])
  next
    case False
    with e53 have e: "e = 53" by linarith
    have "2 powi 53 \<le> q"
      using ilog2_bounds(1) [of q] q1 by (simp add: e_def [symmetric] e)
    with q53 have "q = 2 powi 53" by linarith
    then have "(of_int \<bar>k\<bar> :: rat) = of_int (2 ^ 53)" by (simp add: q_def)
    then have "\<bar>k\<bar> = 2 ^ 53" by (simp only: of_int_eq_iff)
    then have "even \<bar>k\<bar>" by simp
    then have "even k" by simp
    then obtain h where h: "k = 2 * h" by (elim evenE)
    have "(of_int k :: rat) = of_int h * 2 powi (e - 52)"
      by (simp add: e h)
    then show ?thesis
      by (rule fl_exact_multiple [OF nz m])
  qed
qed

lemma fl_of_int_big:
  assumes "2 ^ 53 \<le> \<bar>k\<bar>" and "\<bar>k\<bar> < 2 ^ 54"
  shows "fl (of_int k) = of_int (2 * round_half_even (of_int k / 2))"
proof -
  have lo: "(2::rat) powi 53 \<le> \<bar>of_int k\<bar>"
  proof -
    have "(of_int (2 ^ 53) :: rat) \<le> of_int \<bar>k\<bar>"
      using assms(1) by (simp only: of_int_le_iff)
    then show ?thesis by simp
  qed
  have hi: "\<bar>of_int k :: rat\<bar> < 2 powi (53 + 1)"
  proof -
    have "(of_int \<bar>k\<bar> :: rat) < of_int (2 ^ 54)"
      using assms(2) by (simp only: of_int_less_iff)
    then show ?thesis by simp
  qed
  have e: "ilog2 \<bar>of_int k :: rat\<bar> = 53"
    by (rule ilog2_unique [OF lo hi])
  have nz: "(of_int k :: rat) \<noteq> 0" using assms(1) by auto
  show ?thesis
    using nz by (simp add: fl_def e)
qed

lemma two_powi_values:
  "(2::rat) powi (- 16) = 1 / 65536" "(2::rat) powi (- 15) = 1 / 32768"
  "(2::rat) powi 38 = 274877906944" "(2::rat) powi 39 = 549755813888"
  by (simp_all add: power_int_minus field_simps)

lemma quotient_rounding:
  fixes k :: int
  assumes "\<bar>k\<bar> \<le> 2 ^ 53 \<or> (even k \<and> \<bar>k\<bar> < 2 ^ 54)"
  shows "(if 0 < fl (of_int k / 60000) then \<lfloor>fl (of_int k / 60000)\<rfloor>
          else \<lceil>fl (of_int k / 60000)\<rceil>) =
         (if 0 < k then k div 60000 else - ((- k) div 60000))"
    and "\<bar>fl (of_int k / 60000)\<bar> < 2 ^ 40"
proof -
  define q :: rat where "q = of_int k / 60000"
  define n where "n = k div 60000"
  define r where "r = k mod 60000"
  have k: "k = 60000 * n + r" by (simp add: n_def r_def)
  have r: "0 \<le> r" "r < 60000" by (simp_all add: r_def)
  have q: "q = of_int n + of_int r / 60000"
    unfolding q_def by (subst k) (simp add: field_simps)
  have k54: "\<bar>k\<bar> < 18014398509481984" using assms by auto
  have goal: "(if 0 < fl q then \<lfloor>fl q\<rfloor> else \<lceil>fl q\<rceil>) =
         (if 0 < k then k div 60000 else - ((- k) div 60000)) \<and> \<bar>fl q\<bar> < 2 ^ 40"
  proof (cases "r = 0")
    case True
    then have kn: "k = 60000 * n" using k by simp
    have qn: "q = of_int n" using q True by simp
    have n53: "\<bar>n\<bar> \<le> 2 ^ 53" using k54 kn by (simp add: abs_mult)
    have f: "fl q = of_int n" unfolding qn by (rule fl_of_int_exact [OF n53])
    have neg: "(- k) div 60000 = - n" using kn by simp
    have pos: "(0 < k) = (0 < n)" using kn by (simp add: zero_less_mult_iff)
    have "\<bar>n\<bar> < 2 ^ 40" using k54 kn by (simp add: abs_mult)
    then have "\<bar>of_int n :: rat\<bar> < of_int (2 ^ 40)"
      by (simp only: of_int_abs [symmetric] of_int_less_iff)
    then show ?thesis
      by (simp add: f neg pos n_def [symmetric])
  next
    case False
    then have k0: "k \<noteq> 0" by (auto simp: r_def)
    have aq: "\<bar>q\<bar> = of_int \<bar>k\<bar> / 60000" by (simp add: q_def)
    have q0: "q \<noteq> 0" using k0 by (simp add: q_def)
    have "1 \<le> \<bar>k\<bar>" using k0 by linarith
    then have "(1::rat) \<le> of_int \<bar>k\<bar>" by (simp only: of_int_1_le_iff)
    then have qlo: "1 / 60000 \<le> \<bar>q\<bar>" unfolding aq by (simp add: field_simps)
    have elo: "- 16 \<le> ilog2 \<bar>q\<bar>"
      using qlo by (intro ilog2_ge) (simp add: two_powi_values)
    have ak: "(of_int \<bar>k\<bar> :: rat) < 18014398509481984"
      using k54 by (simp only: of_int_less_numeral_iff)
    have gap: "\<exists>g::rat. \<bar>fl q - q\<bar> < g / 60000 \<and> g \<le> of_int r \<and> g \<le> 60000 - of_int r
        \<and> \<bar>q\<bar> < 549755813888"
    proof (cases "\<bar>k\<bar> \<le> 2 ^ 53")
      case True
      then have "(of_int \<bar>k\<bar> :: rat) \<le> 9007199254740992"
        by (simp add: of_int_le_numeral_iff)
      then have qhi: "\<bar>q\<bar> < 2 powi 38" unfolding aq by (simp add: two_powi_values)
      have "ilog2 \<bar>q\<bar> < 38" using q0 qhi by (intro ilog2_less) simp_all
      then have "(2::rat) powi (ilog2 \<bar>q\<bar> - 53) \<le> 2 powi (- 16)"
        by (intro two_powi_le) simp
      with fl_error [OF q0] elo have "\<bar>fl q - q\<bar> \<le> 1 / 65536"
        by (simp add: two_powi_values)
      moreover have "1 \<le> r" "r \<le> 59999" using False r by linarith+
      then have "(1::rat) \<le> of_int r" "(1::rat) \<le> 60000 - of_int r"
        by (simp_all add: of_int_1_le_iff)
      ultimately show ?thesis
        using qhi by (intro exI [of _ 1]) (simp add: two_powi_values)
    next
      case False
      with assms have ev: "even k" by blast
      have qhi: "\<bar>q\<bar> < 2 powi 39" unfolding aq using ak by (simp add: two_powi_values)
      have "ilog2 \<bar>q\<bar> < 39" using q0 qhi by (intro ilog2_less) simp_all
      then have "(2::rat) powi (ilog2 \<bar>q\<bar> - 53) \<le> 2 powi (- 15)"
        by (intro two_powi_le) simp
      with fl_error [OF q0] elo have "\<bar>fl q - q\<bar> \<le> 1 / 32768"
        by (simp add: two_powi_values)
      moreover have "r = k - 60000 * n" using k by simp
      then have "even r" using ev by simp
      then obtain h where h: "r = 2 * h" by (elim evenE)
      have "0 < h" "h < 30000" using \<open>r \<noteq> 0\<close> r unfolding h by simp_all
      then have "2 \<le> r" "r \<le> 59998" unfolding h by simp_all
      then have "(2::rat) \<le> of_int r" "(2::rat) \<le> 60000 - of_int r"
        by (simp_all add: of_int_numeral_le_iff)
      ultimately show ?thesis
        using qhi by (intro exI [of _ 2]) (simp add: two_powi_values)
    qed
    then obtain g :: rat where g: "\<bar>fl q - q\<bar> < g / 60000" "g \<le> of_int r"
      "g \<le> 60000 - of_int r" and qhi: "\<bar>q\<bar> < 549755813888"
      by blast
    have g1: "g / 60000 \<le> of_int r / 60000" "g / 60000 \<le> 1 - of_int r / 60000"
      using g(2,3) by (simp_all add: field_simps)
    have "(0::rat) \<le> of_int r" using r by simp
    then have g2: "g / 60000 \<le> 1"
      using g1 by linarith
    have lo: "of_int n < fl q" and hi: "fl q < of_int n + 1"
      using g(1) g1 unfolding q by linarith+
    have fl: "\<lfloor>fl q\<rfloor> = n"
      using lo hi by (intro floor_unique) simp_all
    have ce: "\<lceil>fl q\<rceil> = n + 1"
      using lo hi by (intro ceiling_unique) simp_all
    have "\<bar>fl q - q\<bar> < 1" using g(1) g2 by linarith
    then have "\<bar>fl q\<bar> < 1099511627776" using qhi by linarith
    then have bound: "\<bar>fl q\<bar> < 2 ^ 40" by simp
    show ?thesis
    proof (cases "0 < k")
      case True
      then have "0 \<le> n" using k r by linarith
      then have "(0::rat) \<le> of_int n" by simp
      then have "0 < fl q" using lo by linarith
      then show ?thesis using True fl bound by (simp add: n_def)
    next
      case False
      with k0 have "k < 0" by linarith
      then have "n \<le> - 1" using k r by linarith
      then have "(of_int n :: rat) + 1 \<le> 0" by (simp add: of_int_le_iff flip: of_int_add)
      then have np: "\<not> 0 < fl q" using hi by linarith
      have e: "- k = 60000 * (- n - 1) + (60000 - r)" using k by simp
      have "(- k) div 60000 = - n - 1"
        by (rule int_div_pos_eq [OF e]) (use r \<open>r \<noteq> 0\<close> in linarith)+
      then show ?thesis using False np ce bound by simp
    qed
  qed
  then show "(if 0 < fl (of_int k / 60000) then \<lfloor>fl (of_int k / 60000)\<rfloor>
          else \<lceil>fl (of_int k / 60000)\<rceil>) =
         (if 0 < k then k div 60000 else - ((- k) div 60000))"
    and "\<bar>fl (of_int k / 60000)\<bar> < 2 ^ 40"
    unfolding q_def by blast+
qed

lemma to_double_Fin:
  assumes "\<bar>fl q\<bar> < 2 ^ 54"
  shows "to_double q = Fin (fl q)"
proof -
  have "(2::rat) ^ 54 \<le> 2 ^ 1024" by (rule power_increasing) simp_all
  with assms have "\<not> 2 ^ 1024 \<le> fl q" "\<not> fl q \<le> - (2 ^ 1024)" by linarith+
  then show ?thesis by (simp add: to_double_def Let_def)
qed

lemma rounded_difference_exact [simp]: "\<bar>k\<bar> \<le> 2 ^ 53 \<Longrightarrow> rounded_difference k = k"
  by (simp add: rounded_difference_def)

lemma rounded_difference_range:
  assumes "\<bar>k\<bar> \<le> 2 * maxTime"
  shows "\<bar>rounded_difference k\<bar> \<le> 2 ^ 53
     \<or> (even (rounded_difference k) \<and> \<bar>rounded_difference k\<bar> < 2 ^ 54)"
proof (cases "\<bar>k\<bar> \<le> 2 ^ 53")
  case True
  then show ?thesis by simp
next
  case False
  define h where "h = round_half_even (of_int k / 2)"
  have "\<bar>(of_int h :: rat) - of_int k / 2\<bar> \<le> 1 / 2"
    unfolding h_def by (rule round_half_even_error)
  then have "\<bar>(of_int (2 * h - k) :: rat)\<bar> \<le> of_int 1"
    by (simp add: field_simps)
  then have "\<bar>2 * h - k\<bar> \<le> 1"
    by (simp only: of_int_abs [symmetric] of_int_le_iff)
  with assms have "\<bar>2 * h\<bar> < 2 ^ 54"
    by (simp add: maxTime_def)
  with False show ?thesis
    by (simp add: rounded_difference_def h_def)
qed

lemma to_double_difference:
  assumes "\<bar>k\<bar> \<le> 2 * maxTime"
  shows "to_double (of_int k) = Fin (of_int (rounded_difference k))"
proof -
  have f: "fl (of_int k) = of_int (rounded_difference k)"
  proof (cases "\<bar>k\<bar> \<le> 2 ^ 53")
    case True
    then show ?thesis by (simp add: fl_of_int_exact)
  next
    case False
    moreover have "\<bar>k\<bar> < 2 ^ 54" using assms by (simp add: maxTime_def)
    ultimately show ?thesis
      by (simp add: fl_of_int_big rounded_difference_def)
  qed
  have "\<bar>rounded_difference k\<bar> < 2 ^ 54"
    using rounded_difference_range [OF assms] by auto
  then have "\<bar>of_int (rounded_difference k) :: rat\<bar> < of_int (2 ^ 54)"
    by (simp only: of_int_abs [symmetric] of_int_less_iff)
  then have "\<bar>fl (of_int k)\<bar> < 2 ^ 54" by (simp add: f)
  then show ?thesis by (simp only: to_double_Fin f)
qed

lemma to_double_quotient:
  assumes "\<bar>k\<bar> \<le> 2 ^ 53 \<or> (even k \<and> \<bar>k\<bar> < 2 ^ 54)"
  shows "to_double (of_int k / 60000) = Fin (fl (of_int k / 60000))"
proof -
  have "(2::rat) ^ 40 \<le> 2 ^ 54" by (rule power_increasing) simp_all
  with quotient_rounding(2) [OF assms] have "\<bar>fl (of_int k / 60000)\<bar> < 2 ^ 54"
    by linarith
  then show ?thesis by (rule to_double_Fin)
qed

section \<open>Differences\<close>

lemma js_sub_NaN [simp]: "js_sub x NaN = NaN"
  by (cases x) simp_all

lemma js_sub_time_values:
  assumes "\<bar>x\<bar> \<le> maxTime" and "\<bar>y\<bar> \<le> maxTime"
  shows "to_double (of_int x - of_int y) = Fin (of_int (rounded_difference (x - y)))"
    and "js_sub (Fin (of_int x)) (Fin (of_int y)) = Fin (of_int (rounded_difference (x - y)))"
proof -
  have "\<bar>x - y\<bar> \<le> 2 * maxTime" using assms by linarith
  from to_double_difference [OF this]
  show d: "to_double (of_int x - of_int y) = Fin (of_int (rounded_difference (x - y)))"
    by (simp only: of_int_diff)
  then show "js_sub (Fin (of_int x)) (Fin (of_int y)) = Fin (of_int (rounded_difference (x - y)))"
    by simp
qed

lemma differenceInMilliseconds_eval:
  "differenceInMilliseconds a b =
     Inr (case (epoch a, epoch b) of
            (Some x, Some y) \<Rightarrow> Fin (of_int (rounded_difference (x - y)))
          | _ \<Rightarrow> NaN)"
proof (cases "epoch a")
  case None
  then show ?thesis by (simp add: differenceInMilliseconds_def toDate_epoch)
next
  case a: (Some x)
  show ?thesis
  proof (cases "epoch b")
    case None
    then show ?thesis by (simp add: differenceInMilliseconds_def toDate_epoch a)
  next
    case b: (Some y)
    note s = js_sub_time_values [OF epoch_range [OF a] epoch_range [OF b]]
    show ?thesis by (simp add: differenceInMilliseconds_def toDate_epoch a b s)
  qed
qed

lemma sdiv_minutes:
  "(if 0 < k then k div 60000 else - ((- k) div 60000)) = k sdiv (60000::int)"
  by (simp add: signed_divide_int_def sgn_if)

lemma quotient_minutes:
  "(if 0 < (of_int k :: rat) / 60000
    then \<lfloor>(of_int k :: rat) / 60000\<rfloor> else \<lceil>(of_int k :: rat) / 60000\<rceil>) = k sdiv 60000"
proof -
  have f: "\<lfloor>(of_int k :: rat) / 60000\<rfloor> = k div 60000"
    using floor_divide_of_int_eq [of k 60000, where ?'a = rat] by simp
  have c: "\<lceil>(of_int k :: rat) / 60000\<rceil> = - ((- k) div 60000)"
    using floor_divide_of_int_eq [of "- k" 60000, where ?'a = rat]
    by (simp add: ceiling_def)
  have "(0 < (of_int k :: rat) / 60000) = (0 < k)" by simp
  then show ?thesis by (simp only: f c sdiv_minutes)
qed

lemma minutes_of_difference:
  assumes "\<bar>k\<bar> \<le> 2 ^ 53 \<or> (even k \<and> \<bar>k\<bar> < 2 ^ 54)"
  shows "(let diff = js_div_pos (Fin (of_int k)) MILLISECONDS_IN_MINUTE
          in (Inr (if js_gt diff (Fin 0) then Math_floor diff else Math_ceil diff)
               :: error + number))
         = Inr (Fin (of_int (k sdiv 60000)))"
proof -
  have d: "to_double (of_int k / 60000) = Fin (fl (of_int k / 60000))"
    by (rule to_double_quotient [OF assms])
  note q = quotient_rounding(1) [OF assms, unfolded sdiv_minutes]
  show ?thesis
  proof (cases "0 < fl (of_int k / 60000)")
    case True
    with q show ?thesis by (simp add: MILLISECONDS_IN_MINUTE_def d js_gt_def)
  next
    case False
    with q show ?thesis by (simp add: MILLISECONDS_IN_MINUTE_def d js_gt_def)
  qed
qed

lemma differenceInMinutes_eval:
  "differenceInMinutes a b =
     Inr (case (epoch a, epoch b) of
            (Some x, Some y) \<Rightarrow> Fin (of_int (rounded_difference (x - y) sdiv 60000))
          | _ \<Rightarrow> NaN)"
proof (cases "epoch a")
  case None
  then show ?thesis
    by (simp add: differenceInMinutes_def differenceInMilliseconds_eval js_gt_def Let_def)
next
  case a: (Some x)
  show ?thesis
  proof (cases "epoch b")
    case None
    then show ?thesis
      by (simp add: differenceInMinutes_def differenceInMilliseconds_eval js_gt_def Let_def a)
  next
    case b: (Some y)
    have "\<bar>x - y\<bar> \<le> 2 * maxTime"
      using epoch_range [OF a] epoch_range [OF b] by linarith
    note m = minutes_of_difference [OF rounded_difference_range [OF this]]
    show ?thesis
      by (simp only: differenceInMinutes_def differenceInMilliseconds_eval a b
          requiredArgs_same bindE_Inr prod.case option.case m)
  qed
qed

text \<open>
  Claim C6, as stated, takes the millisecond difference to be \<open>epoch a - epoch b\<close>.
  That difference is computed in double arithmetic, and two time values can be more
  than \<open>2^53\<close> apart: from the last instant of the range of \<^verbatim>\<open>Date\<close> back to one
  millisecond after its first, the difference \<open>17279999999999999\<close> is rounded to
  \<open>17280000000000000\<close>, which is 288000000000 minutes, where the quotient of the
  exact difference truncates to 287999999999.
\<close>

theorem differenceInMinutes_rounding_counterexample:
  "epoch (RNumber (Fin 8640000000000000)) = Some 8640000000000000
   \<and> epoch (RNumber (Fin (- 8639999999999999))) = Some (- 8639999999999999)
   \<and> differenceInMilliseconds (RNumber (Fin 8640000000000000))
       (RNumber (Fin (- 8639999999999999))) = Inr (Fin 17280000000000000)
   \<and> differenceInMinutes (RNumber (Fin 8640000000000000))
       (RNumber (Fin (- 8639999999999999))) = Inr (Fin 288000000000)
   \<and> (8640000000000000 - (- 8639999999999999)) sdiv 60000 = (287999999999 :: int)"
proof -
  have a: "epoch (RNumber (Fin 8640000000000000)) = Some 8640000000000000"
    using TimeClip_of_int [of 8640000000000000]
    by (simp add: epoch_RNumber maxTime_def)
  have b: "epoch (RNumber (Fin (- 8639999999999999))) = Some (- 8639999999999999)"
    using TimeClip_of_int [of "- 8639999999999999"]
    by (simp add: epoch_RNumber maxTime_def)
  have "(of_int 17279999999999999 :: rat) / 2 = of_int 8639999999999999 + 1 / 2"
    by simp
  then have "round_half_even (of_int 17279999999999999 / 2) = 8640000000000000"
    by (simp only: round_half_even_half) simp
  then have r: "rounded_difference 17279999999999999 = 17280000000000000"
    by (simp add: rounded_difference_def)
  have ms: "differenceInMilliseconds (RNumber (Fin 8640000000000000))
       (RNumber (Fin (- 8639999999999999))) = Inr (Fin 17280000000000000)"
    by (simp add: differenceInMilliseconds_eval a b r)
  have mi: "differenceInMinutes (RNumber (Fin 8640000000000000))
       (RNumber (Fin (- 8639999999999999))) = Inr (Fin 288000000000)"
    by (simp add: differenceInMinutes_eval a b r signed_divide_int_def)
  have ex: "(8640000000000000 - (- 8639999999999999)) sdiv 60000 = (287999999999 :: int)"
    by (simp add: signed_divide_int_def)
  from a b ms mi ex show ?thesis by blast
qed

text \<open>
  Claim C6, amended. For every pair of inputs, \<^verbatim>\<open>differenceInMilliseconds(a, b)\<close> is
  the difference \<open>epoch a - epoch b\<close> as a double holds it: the difference itself when
  it is at most \<open>2^53\<close> in magnitude, the nearest even integer beyond. And
  \<^verbatim>\<open>differenceInMinutes(a, b)\<close> is that millisecond difference divided by 60000 and
  truncated towards zero: the floor of a positive quotient, the ceiling of a negative
  one, which is the integer quotient that rounds towards zero (\<open>sdiv\<close>); the rounding
  of the quotient to a double does not change its truncation. The difference of an
  invalid instant is \<^verbatim>\<open>NaN\<close>.
\<close>

theorem differenceInMinutes_truncates:
  "differenceInMinutes a b =
     Inr (case (epoch a, epoch b) of
            (Some x, Some y) \<Rightarrow>
              Fin (of_int (if 0 < (of_int (rounded_difference (x - y)) :: rat) / 60000
                           then \<lfloor>(of_int (rounded_difference (x - y)) :: rat) / 60000\<rfloor>
                           else \<lceil>(of_int (rounded_difference (x - y)) :: rat) / 60000\<rceil>))
          | _ \<Rightarrow> NaN)
   \<and> differenceInMinutes a b =
     Inr (case (epoch a, epoch b) of
            (Some x, Some y) \<Rightarrow> Fin (of_int (rounded_difference (x - y) sdiv 60000))
          | _ \<Rightarrow> NaN)
   \<and> differenceInMilliseconds a b =
     Inr (case (epoch a, epoch b) of
            (Some x, Some y) \<Rightarrow> Fin (of_int (rounded_difference (x - y)))
          | _ \<Rightarrow> NaN)"
proof -
  have 1: "differenceInMinutes a b =
     Inr (case (epoch a, epoch b) of
            (Some x, Some y) \<Rightarrow>
              Fin (of_int (if 0 < (of_int (rounded_difference (x - y)) :: rat) / 60000
                           then \<lfloor>(of_int (rounded_difference (x - y)) :: rat) / 60000\<rfloor>
                           else \<lceil>(of_int (rounded_difference (x - y)) :: rat) / 60000\<rceil>))
          | _ \<Rightarrow> NaN)"
    by (simp only: differenceInMinutes_eval quotient_minutes)
  have 2: "differenceInMinutes a b =
     Inr (case (epoch a, epoch b) of
            (Some x, Some y) \<Rightarrow> Fin (of_int (rounded_difference (x - y) sdiv 60000))
          | _ \<Rightarrow> NaN)"
    by (rule differenceInMinutes_eval)
  have 3: "differenceInMilliseconds a b =
     Inr (case (epoch a, epoch b) of
            (Some x, Some y) \<Rightarrow> Fin (of_int (rounded_difference (x - y)))
          | _ \<Rightarrow> NaN)"
    by (rule differenceInMilliseconds_eval)
  from 1 2 3 show ?thesis by blast
qed

lemma epoch_at_clock:
  assumes "\<bar>t0\<bar> + msPerDay \<le> maxTime" and "0 \<le> h" "h < 24" "0 \<le> m" "m < 60" "0 \<le> s" "s < 60"
  shows "epoch (at_clock t0 h m s) = Some (t0 + h * msPerHour + m * msPerMinute + s * msPerSecond)"
proof -
  have "\<bar>t0 + h * msPerHour + m * msPerMinute + s * msPerSecond\<bar> \<le> maxTime"
    using assms by (simp add: msPerDay_def msPerHour_def msPerMinute_def msPerSecond_def)
  then show ?thesis
    by (simp only: at_clock_def epoch_RNumber TimeClip_of_int if_True)
qed

text \<open>
  Claim C4, as stated, gives \<^verbatim>\<open>differenceInMinutes(10:20:00, 12:07:59) = 12\<close>. The
  first instant is 1 hour, 47 minutes and 59 seconds before the second, so the result
  is -107. The example in the source has 12:20:00 as its first instant. The instants
  below are those of 2 July 2014, the day of that example, in UTC.
\<close>

theorem differenceInMinutes_example_counterexample:
  "differenceInMinutes (RDate (new_Date_local (fixed_zone 0) 2014 6 2 10 20 0 0))
     (RDate (new_Date_local (fixed_zone 0) 2014 6 2 12 7 59 0)) = Inr (Fin (- 107))
   \<and> differenceInMinutes (RDate (new_Date_local (fixed_zone 0) 2014 6 2 10 20 0 0))
     (RDate (new_Date_local (fixed_zone 0) 2014 6 2 12 7 59 0)) \<noteq> Inr (Fin 12)"
proof -
  have a: "new_Date_local (fixed_zone 0) 2014 6 2 10 20 0 0 = Date (Some 1404296400000)"
    by code_simp
  have b: "new_Date_local (fixed_zone 0) 2014 6 2 12 7 59 0 = Date (Some 1404302879000)"
    by code_simp
  have e: "epoch (RDate (Date (Some 1404296400000))) = Some 1404296400000"
    "epoch (RDate (Date (Some 1404302879000))) = Some 1404302879000"
    by (simp_all add: epoch_RDate clip_Some maxTime_def)
  show ?thesis
    by (simp add: a b differenceInMinutes_eval e signed_divide_int_def)
qed

text \<open>
  Claim C4, amended. For two instants of the same day, counted from the instant \<open>t0\<close>
  of its midnight: \<^verbatim>\<open>differenceInMinutes(12:20:00, 12:07:59)\<close> is 12,
  \<^verbatim>\<open>differenceInMinutes(10:00:00, 10:01:59)\<close> is -1, and
  \<^verbatim>\<open>differenceInMinutes(10:20:00, 12:07:59)\<close> is -107: the sign is that of the first
  argument minus the second, and the quotient is truncated towards zero.
\<close>

theorem differenceInMinutes_examples:
  assumes "\<bar>t0\<bar> + msPerDay \<le> maxTime"
  shows "differenceInMinutes (at_clock t0 12 20 0) (at_clock t0 12 7 59) = Inr (Fin 12)
    \<and> differenceInMinutes (at_clock t0 10 0 0) (at_clock t0 10 1 59) = Inr (Fin (- 1))
    \<and> differenceInMinutes (at_clock t0 10 20 0) (at_clock t0 12 7 59) = Inr (Fin (- 107))"
  using assms
  by (simp add: differenceInMinutes_eval epoch_at_clock signed_divide_int_def
      msPerHour_def msPerMinute_def msPerSecond_def)

theorem differenceInMinutes_examples_witness:
  "\<bar>1404259200000\<bar> + msPerDay \<le> maxTime
   \<and> differenceInMinutes (at_clock 1404259200000 12 20 0) (at_clock 1404259200000 12 7 59)
       = Inr (Fin 12)
   \<and> differenceInMinutes (at_clock 1404259200000 10 0 0) (at_clock 1404259200000 10 1 59)
       = Inr (Fin (- 1))
   \<and> differenceInMinutes (at_clock 1404259200000 10 20 0) (at_clock 1404259200000 12 7 59)
       = Inr (Fin (- 107))"
proof -
  have h: "\<bar>1404259200000\<bar> + msPerDay \<le> maxTime"
    by (simp add: msPerDay_def maxTime_def)
  from h differenceInMinutes_examples [OF h] show ?thesis by blast
qed


section \<open>Month arithmetic: the paths that read no calendar field\<close>

lemma local_field_None [simp]: "local_field z f (Date None) = NaN"
  by (simp add: local_field_def)

lemma store_local_None [simp]: "store_local z None = Date None"
  by (simp add: store_local_def)

lemma toDate_invalid: "epoch r = None \<Longrightarrow> toDate r = Inr (Date None)"
  by (simp add: toDate_epoch)

lemma addMonths_noop:
  assumes "toInteger (DNum amount) = Fin 0"
  shows "addMonths z r amount = toDate r"
  using assms by (simp add: addMonths_def toDate_epoch Let_def isNaN_def js_not_def)

text \<open>
  Claim C2. For every valid instant \<open>d\<close>, \<^verbatim>\<open>addMonths(d, 0)\<close> has the time value of
  \<open>d\<close>, and so has \<^verbatim>\<open>addMonths(d, amount)\<close> for every amount that coerces to zero:
  the result is the canonical copy of \<open>d\<close>, whatever the time zone \<open>z\<close>, since no
  calendar field is read or set on this path.
\<close>

theorem addMonths_zero:
  assumes "Date_ok d" and "timeValue d = Some t" and "toInteger (DNum amount) = Fin 0"
  shows "addMonths z (RDate d) (Fin 0) = Inr d
    \<and> addMonths z (RDate d) amount = Inr d
    \<and> addMonths z (RDate d) amount = toDate (RDate d)
    \<and> bindE (addMonths z (RDate d) (Fin 0)) (\<lambda>r. Inr (getTime r)) = Inr (Fin (of_int t))"
proof -
  have z: "toInteger (DNum (Fin 0)) = Fin 0"
    by (simp add: isNaN_def)
  have c: "toDate (RDate d) = Inr d"
    using assms(1) by (cases d) (simp add: toDate_epoch epoch_RDate_ok)
  have g: "getTime d = Fin (of_int t)"
    using assms(2) by (simp add: getTime_def)
  show ?thesis
    unfolding addMonths_noop [OF z] addMonths_noop [OF assms(3)] c bindE_Inr g by simp
qed

theorem addMonths_zero_witness:
  "Date_ok (Date (Some 1553995800000)) \<and> timeValue (Date (Some 1553995800000)) = Some 1553995800000
   \<and> toInteger (DNum (Fin (1 / 2))) = Fin 0
   \<and> addMonths cet_2019 (RDate (Date (Some 1553995800000))) (Fin 0)
       = Inr (Date (Some 1553995800000))
   \<and> addMonths cet_2019 (RDate (Date (Some 1553995800000))) (Fin (1 / 2))
       = Inr (Date (Some 1553995800000))"
proof -
  have 1: "Date_ok (Date (Some 1553995800000))"
    by (simp add: Date_ok_def maxTime_def)
  have 2: "timeValue (Date (Some 1553995800000)) = Some 1553995800000"
    by simp
  have 3: "toInteger (DNum (Fin (1 / 2))) = Fin 0"
    by code_simp
  from 1 2 3 addMonths_zero [OF 1 2 3, of cet_2019] show ?thesis by blast
qed

section \<open>Invalid instants\<close>

lemma setters_invalid [simp]:
  "setDate z dt (Date None) = Date None"
  "setMonth z m dt (Date None) = Date None"
  "setHours z h mi s milli (Date None) = Date None"
  "setFullYear z NaN m' dt' d = Date None"
  by (simp_all add: setDate_def setMonth_def setHours_def setFullYear_def)

lemma getters_invalid [simp]:
  "getFullYear z (Date None) = NaN"
  "Date_getMonth z (Date None) = NaN"
  "getDate z (Date None) = NaN"
  "Date_getDay z (Date None) = NaN"
  by (simp_all add: getFullYear_def Date_getMonth_def getDate_def Date_getDay_def)

lemma addMonths_invalid:
  assumes "epoch r = None"
  shows "addMonths z r amount = Inr (Date None)"
  using assms
  by (simp add: addMonths_def toDate_epoch Let_def new_Date_def js_ge_def)

text \<open>
  Claim C7. An input that is neither a \<^verbatim>\<open>Date\<close> nor a number (a string, or anything
  else) canonicalises to an invalid instant, and nothing is thrown. Every arithmetic
  function given an input \<open>r\<close> that canonicalises to an invalid instant returns, and
  returns an invalid result: \<^verbatim>\<open>NaN\<close> from the differences (\<open>r\<close> on either side) and
  from the accessors, an Invalid Date from the month boundaries and from
  \<^verbatim>\<open>addMonths\<close>, for every amount.
\<close>

theorem invalid_propagates:
  assumes "epoch r = None"
  shows "toDate (RString s) = Inr (Date None) \<and> toDate ROther = Inr (Date None)
    \<and> toDate r = Inr (Date None)
    \<and> differenceInMilliseconds r x = Inr NaN \<and> differenceInMilliseconds x r = Inr NaN
    \<and> differenceInMinutes r x = Inr NaN \<and> differenceInMinutes x r = Inr NaN
    \<and> getMonth z r = Inr NaN \<and> getDay z r = Inr NaN \<and> getDaysInMonth z r = Inr NaN
    \<and> startOfMonth z r = Inr (Date None) \<and> endOfMonth z r = Inr (Date None)
    \<and> addMonths z r amount = Inr (Date None)"
proof -
  have 1: "toDate (RString s) = Inr (Date None)" "toDate ROther = Inr (Date None)"
    by (simp_all add: new_Date_def)
  have 2: "toDate r = Inr (Date None)"
    using assms by (rule toDate_invalid)
  have 3: "differenceInMilliseconds r x = Inr NaN" "differenceInMilliseconds x r = Inr NaN"
    using assms by (simp_all add: differenceInMilliseconds_eval split: option.splits)
  have 4: "differenceInMinutes r x = Inr NaN" "differenceInMinutes x r = Inr NaN"
    using assms by (simp_all add: differenceInMinutes_eval split: option.splits)
  have 5: "getMonth z r = Inr NaN" "getDay z r = Inr NaN"
    using 2 by (simp_all add: getMonth_def getDay_def)
  have 6: "getDaysInMonth z r = Inr NaN"
    using 2 by (simp add: getDaysInMonth_def Let_def)
  have 7: "startOfMonth z r = Inr (Date None)" "endOfMonth z r = Inr (Date None)"
    using 2 by (simp_all add: startOfMonth_def endOfMonth_def Let_def)
  have 8: "addMonths z r amount = Inr (Date None)"
    using assms by (rule addMonths_invalid)
  from 1 2 3 4 5 6 7 8 show ?thesis by blast
qed

theorem invalid_propagates_witness:
  "epoch (RString ''2014-02-11'') = None
   \<and> toDate (RString ''2014-02-11'') = Inr (Date None)
   \<and> differenceInMinutes (RString ''2014-02-11'') (RNumber (Fin 0)) = Inr NaN
   \<and> getDaysInMonth cet_2019 (RString ''2014-02-11'') = Inr NaN
   \<and> endOfMonth cet_2019 (RString ''2014-02-11'') = Inr (Date None)
   \<and> addMonths cet_2019 (RString ''2014-02-11'') (Fin 1) = Inr (Date None)"
proof -
  have h: "epoch (RString ''2014-02-11'') = None" by simp
  from h invalid_propagates [OF h, of "''2014-02-11''" "RNumber (Fin 0)" cet_2019 "Fin 1"]
  show ?thesis by blast
qed

section \<open>The calendar of the Date object\<close>

lemma div_bounds:
  fixes a c :: int
  assumes "0 < c"
  shows "c * (a div c) \<le> a" and "a < c * (a div c) + c"
proof -
  have "a = c * (a div c) + a mod c" by simp
  moreover have "0 \<le> a mod c" "a mod c < c" using assms by simp_all
  ultimately show "c * (a div c) \<le> a" and "a < c * (a div c) + c" by linarith+
qed

lemma div_succ:
  fixes a c :: int
  assumes "1 < c"
  shows "(a + 1) div c = a div c + (if (a + 1) mod c = 0 then 1 else 0)"
proof (cases "a mod c + 1 < c")
  case True
  have r: "0 \<le> a mod c" using assms by simp
  have "a + 1 = c * (a div c) + (a mod c + 1)" by simp
  then have "(a + 1) div c = a div c" "(a + 1) mod c = a mod c + 1"
    using True r int_div_pos_eq [of "a + 1" c "a div c" "a mod c + 1"]
      int_mod_pos_eq [of "a + 1" c "a div c" "a mod c + 1"] by linarith+
  then show ?thesis using r by simp
next
  case False
  have "a mod c < c" using assms by simp
  with False have r: "a mod c + 1 = c" by linarith
  have "a + 1 = c * (a div c) + (a mod c + 1)" by simp
  with r have "a + 1 = c * (a div c + 1) + 0" by (simp add: algebra_simps)
  then have "(a + 1) div c = a div c + 1" "(a + 1) mod c = 0"
    using assms int_div_pos_eq [of "a + 1" c "a div c + 1" 0]
      int_mod_pos_eq [of "a + 1" c "a div c + 1" 0] by linarith+
  then show ?thesis by simp
qed

lemma DayFromYear_bounds:
  "146097 * (y - 1970) - 607 \<le> 400 * DayFromYear y"
  "400 * DayFromYear y \<le> 146097 * (y - 1970) + 593"
proof -
  define a where "a = (y - 1969) div 4"
  define b where "b = (y - 1901) div 100"
  define c where "c = (y - 1601) div 400"
  have a: "4 * a \<le> y - 1969" "y - 1969 < 4 * a + 4"
    unfolding a_def by (rule div_bounds, simp)+
  have b: "100 * b \<le> y - 1901" "y - 1901 < 100 * b + 100"
    unfolding b_def by (rule div_bounds, simp)+
  have c: "400 * c \<le> y - 1601" "y - 1601 < 400 * c + 400"
    unfolding c_def by (rule div_bounds, simp)+
  have d: "DayFromYear y = 365 * (y - 1970) + a - b + c"
    by (simp only: DayFromYear_def a_def b_def c_def)
  show "146097 * (y - 1970) - 607 \<le> 400 * DayFromYear y"
    unfolding d using a b c by (simp add: algebra_simps)
  show "400 * DayFromYear y \<le> 146097 * (y - 1970) + 593"
    unfolding d using a b c by (simp add: algebra_simps)
qed

lemma leap_facts:
  fixes y :: int
  shows "y mod 100 = 0 \<Longrightarrow> y mod 4 = 0" and "y mod 400 = 0 \<Longrightarrow> y mod 100 = 0"
proof -
  have "(4::int) dvd 100" "(100::int) dvd 400" by simp_all
  then show "y mod 100 = 0 \<Longrightarrow> y mod 4 = 0" and "y mod 400 = 0 \<Longrightarrow> y mod 100 = 0"
    by (meson dvd_trans mod_eq_0_iff_dvd)+
qed

lemma DayFromYear_Suc: "DayFromYear (y + 1) = DayFromYear y + DaysInYear y"
proof -
  have m4: "(y - 1968) mod 4 = y mod 4"
    using mod_mult_self2 [of "y - 1968" 4 492] by simp
  have m100: "(y - 1900) mod 100 = y mod 100"
    using mod_mult_self2 [of "y - 1900" 100 19] by simp
  have m400: "(y - 1600) mod 400 = y mod 400"
    using mod_mult_self2 [of "y - 1600" 400 4] by simp
  have 4: "(y + 1 - 1969) div 4 = (y - 1969) div 4 + (if y mod 4 = 0 then 1 else 0)"
    using div_succ [of 4 "y - 1969"] m4 by (simp add: algebra_simps)
  have 100: "(y + 1 - 1901) div 100 = (y - 1901) div 100 + (if y mod 100 = 0 then 1 else 0)"
    using div_succ [of 100 "y - 1901"] m100 by (simp add: algebra_simps)
  have 400: "(y + 1 - 1601) div 400 = (y - 1601) div 400 + (if y mod 400 = 0 then 1 else 0)"
    using div_succ [of 400 "y - 1601"] m400 by (simp add: algebra_simps)
  show ?thesis
    unfolding DayFromYear_def DaysInYear_def 4 100 400
    using leap_facts [of y] by auto
qed

lemma DaysInYear_pos: "365 \<le> DaysInYear y" "DaysInYear y \<le> 366"
  by (simp_all add: DaysInYear_def)

lemma DayFromYear_mono: "y \<le> y' \<Longrightarrow> DayFromYear y \<le> DayFromYear y'"
proof -
  have "DayFromYear y \<le> DayFromYear (y + int n)" for n
  proof (induction n)
    case 0
    then show ?case by simp
  next
    case (Suc n)
    have "DayFromYear (y + int (Suc n)) = DayFromYear (y + int n) + DaysInYear (y + int n)"
      using DayFromYear_Suc [of "y + int n"] by (simp add: algebra_simps)
    with Suc DaysInYear_pos(1) [of "y + int n"] show ?case by linarith
  qed
  from this [of "nat (y' - y)"] show "y \<le> y' \<Longrightarrow> DayFromYear y \<le> DayFromYear y'"
    by simp
qed

lemma YearFromDay_bounds:
  "DayFromYear (YearFromDay d) \<le> d" "d < DayFromYear (YearFromDay d + 1)"
proof -
  define e where "e = (400 * d + 607) div 146097"
  have e1: "146097 * e \<le> 400 * d + 607" and e2: "400 * d + 607 < 146097 * e + 146097"
    unfolding e_def by (rule div_bounds, simp)+
  have "DayFromYear (YearFromDay d) \<le> d \<and> d < DayFromYear (YearFromDay d + 1)"
  proof (cases "DayFromYear (1970 + e) \<le> d")
    case True
    have "400 * d < 400 * DayFromYear (1970 + e + 1)"
      using DayFromYear_bounds(1) [of "1970 + e + 1"] e2 by (simp add: algebra_simps)
    then show ?thesis using True by (simp add: YearFromDay_def e_def Let_def)
  next
    case False
    have "400 * DayFromYear (1970 + e - 1) \<le> 400 * d"
      using DayFromYear_bounds(2) [of "1970 + e - 1"] e1 by (simp add: algebra_simps)
    then show ?thesis using False by (simp add: YearFromDay_def e_def Let_def)
  qed
  then show "DayFromYear (YearFromDay d) \<le> d" "d < DayFromYear (YearFromDay d + 1)"
    by blast+
qed

lemma YearFromDay_unique:
  assumes "DayFromYear y \<le> d" and "d < DayFromYear (y + 1)"
  shows "YearFromDay d = y"
proof (rule ccontr)
  assume ne: "YearFromDay d \<noteq> y"
  note b = YearFromDay_bounds [of d]
  show False
  proof (cases "YearFromDay d < y")
    case True
    then have "DayFromYear (YearFromDay d + 1) \<le> DayFromYear y"
      by (intro DayFromYear_mono) simp
    with b assms show False by linarith
  next
    case False
    with ne have "y + 1 \<le> YearFromDay d" by linarith
    then have "DayFromYear (y + 1) \<le> DayFromYear (YearFromDay d)"
      by (rule DayFromYear_mono)
    with b assms show False by linarith
  qed
qed


lemma leap_cases: "leap y = 0 \<or> leap y = 1"
  by (simp add: leap_def)

lemma DaysInYear_leap: "DaysInYear y = 365 + leap y"
  by (simp add: leap_def DaysInYear_def)

lemma month_cases:
  fixes m :: int
  assumes "0 \<le> m" "m < 12"
  shows "m = 0 \<or> m = 1 \<or> m = 2 \<or> m = 3 \<or> m = 4 \<or> m = 5 \<or> m = 6 \<or> m = 7 \<or> m = 8
    \<or> m = 9 \<or> m = 10 \<or> m = 11"
  using assms by presburger

lemma month_of_yday_range: "0 \<le> month_of_yday l d" "month_of_yday l d < 12"
  by (simp_all add: month_of_yday_def)

lemma days_in_month_range: "28 \<le> days_in_month y m" "days_in_month y m \<le> 31"
  using leap_cases [of y] by (auto simp: days_in_month_def)

lemma days_before_month_succ:
  assumes "0 \<le> m" "m < 11"
  shows "days_before_month (leap y) (m + 1) = days_before_month (leap y) m + days_in_month y m"
proof -
  from assms have "m = 0 \<or> m = 1 \<or> m = 2 \<or> m = 3 \<or> m = 4 \<or> m = 5 \<or> m = 6 \<or> m = 7 \<or> m = 8
    \<or> m = 9 \<or> m = 10" by presburger
  then show ?thesis
    by (elim disjE) (simp_all add: days_before_month_def days_in_month_def)
qed

lemma days_before_month_last:
  "days_before_month (leap y) 11 + days_in_month y 11 = DaysInYear y"
  by (simp add: days_before_month_def days_in_month_def DaysInYear_leap)

lemma days_before_month_bounds:
  assumes "0 \<le> m" "m < 12"
  shows "0 \<le> days_before_month (leap y) m"
    and "days_before_month (leap y) m + days_in_month y m \<le> DaysInYear y"
  using month_cases [OF assms] leap_cases [of y]
  by (auto simp: days_before_month_def days_in_month_def DaysInYear_leap)

lemma month_of_yday_days_before:
  assumes "0 \<le> m" "m < 12" "1 \<le> dt" "dt \<le> days_in_month y m"
  shows "month_of_yday (leap y) (days_before_month (leap y) m + dt - 1) = m"
  using month_cases [OF assms(1,2)] leap_cases [of y] assms(3,4)
  by (elim disjE) (simp_all add: days_before_month_def days_in_month_def month_of_yday_def)

lemma civil_day_simple:
  assumes "0 \<le> m" "m < 12"
  shows "civil_day y m dt = DayFromYear y + days_before_month (leap y) m + dt - 1"
  using assms by (simp add: civil_day_def Let_def)

lemma civil_day_norm: "civil_day y m dt = civil_day (y + m div 12) (m mod 12) dt"
  by (simp add: civil_day_def Let_def)

lemma civil_day_year:
  assumes "0 \<le> m" "m < 12" "1 \<le> dt" "dt \<le> days_in_month y m"
  shows "YearFromDay (civil_day y m dt) = y"
proof (rule YearFromDay_unique)
  show "DayFromYear y \<le> civil_day y m dt"
    using days_before_month_bounds(1) [OF assms(1,2), of y] assms(3)
    by (simp add: civil_day_simple [OF assms(1,2)])
  show "civil_day y m dt < DayFromYear (y + 1)"
    using days_before_month_bounds(2) [OF assms(1,2), of y] assms(4)
    by (simp add: civil_day_simple [OF assms(1,2)] DayFromYear_Suc)
qed

lemma civil_day_zero:
  "civil_day y (m + 1) 0 =
     civil_day (y + m div 12) (m mod 12) (days_in_month (y + m div 12) (m mod 12))"
proof -
  define ym where "ym = y + m div 12"
  define mn where "mn = m mod 12"
  have mn: "0 \<le> mn" "mn < 12" by (simp_all add: mn_def)
  have m: "m = 12 * (m div 12) + mn" by (simp add: mn_def)
  have rhs: "civil_day ym mn (days_in_month ym mn) =
      DayFromYear ym + days_before_month (leap ym) mn + days_in_month ym mn - 1"
    by (rule civil_day_simple [OF mn])
  show ?thesis
  proof (cases "mn < 11")
    case True
    have "m + 1 = 12 * (m div 12) + (mn + 1)" using m by simp
    then have "(m + 1) div 12 = m div 12" "(m + 1) mod 12 = mn + 1"
      using True mn int_div_pos_eq [of "m + 1" 12 "m div 12" "mn + 1"]
        int_mod_pos_eq [of "m + 1" 12 "m div 12" "mn + 1"] by linarith+
    then have "civil_day y (m + 1) 0 = DayFromYear ym + days_before_month (leap ym) (mn + 1) - 1"
      by (simp add: civil_day_def Let_def ym_def)
    then show ?thesis
      unfolding ym_def [symmetric] mn_def [symmetric] rhs
      using days_before_month_succ [OF mn(1) True, of ym] by simp
  next
    case False
    with mn have e: "mn = 11" by linarith
    have "m + 1 = 12 * (m div 12 + 1) + 0" using m e by simp
    then have "(m + 1) div 12 = m div 12 + 1" "(m + 1) mod 12 = 0"
      using int_div_pos_eq [of "m + 1" 12 "m div 12 + 1" 0]
        int_mod_pos_eq [of "m + 1" 12 "m div 12 + 1" 0] by linarith+
    then have "civil_day y (m + 1) 0 = DayFromYear (ym + 1) - 1"
      by (simp add: civil_day_def Let_def ym_def days_before_month_def algebra_simps)
    then show ?thesis
      unfolding ym_def [symmetric] mn_def [symmetric]
      using days_before_month_last [of ym] rhs by (simp add: DayFromYear_Suc e)
  qed
qed


lemma Day_wall:
  assumes "0 \<le> tod" "tod < msPerDay"
  shows "Day (n * msPerDay + tod) = n" and "TimeWithinDay (n * msPerDay + tod) = tod"
proof -
  have "n * msPerDay + tod = msPerDay * n + tod" by simp
  then show "Day (n * msPerDay + tod) = n" and "TimeWithinDay (n * msPerDay + tod) = tod"
    unfolding Day_def TimeWithinDay_def
    using assms int_div_pos_eq [of "n * msPerDay + tod" msPerDay n tod]
      int_mod_pos_eq [of "n * msPerDay + tod" msPerDay n tod] by linarith+
qed

lemma TimeWithinDay_range: "0 \<le> TimeWithinDay w" "TimeWithinDay w < msPerDay"
  by (simp_all add: TimeWithinDay_def msPerDay_def)

lemma Day_TimeWithinDay: "Day w * msPerDay + TimeWithinDay w = w"
  by (simp add: Day_def TimeWithinDay_def)

lemma date_fields_by_day:
  assumes "Day w = Day w'"
  shows "YearFromTime w = YearFromTime w'" "MonthFromTime w = MonthFromTime w'"
    "DateFromTime w = DateFromTime w'"
  using assms
  by (simp_all add: YearFromTime_def MonthFromTime_def DateFromTime_def InLeapYear_def
      DayWithinYear_def)

lemma wall_clock_fields:
  assumes "0 \<le> m" "m < 12" "1 \<le> dt" "dt \<le> days_in_month y m" "0 \<le> tod" "tod < msPerDay"
  shows "Day (wall_clock y m dt tod) = civil_day y m dt"
    and "TimeWithinDay (wall_clock y m dt tod) = tod"
    and "YearFromTime (wall_clock y m dt tod) = y"
    and "MonthFromTime (wall_clock y m dt tod) = m"
    and "DateFromTime (wall_clock y m dt tod) = dt"
proof -
  show d: "Day (wall_clock y m dt tod) = civil_day y m dt"
    and "TimeWithinDay (wall_clock y m dt tod) = tod"
    unfolding wall_clock_def using Day_wall [OF assms(5,6)] by blast+
  show yr: "YearFromTime (wall_clock y m dt tod) = y"
    unfolding YearFromTime_def d by (rule civil_day_year [OF assms(1-4)])
  have dw: "DayWithinYear (wall_clock y m dt tod) = days_before_month (leap y) m + dt - 1"
    unfolding DayWithinYear_def d yr by (simp add: civil_day_simple [OF assms(1,2)])
  show mo: "MonthFromTime (wall_clock y m dt tod) = m"
    unfolding MonthFromTime_def InLeapYear_def yr dw
    by (rule month_of_yday_days_before [OF assms(1-4)])
  show "DateFromTime (wall_clock y m dt tod) = dt"
    unfolding DateFromTime_def InLeapYear_def yr dw mo by simp
qed

lemma MonthFromTime_range: "0 \<le> MonthFromTime w" "MonthFromTime w < 12"
  by (simp_all add: MonthFromTime_def month_of_yday_range)

lemma clock_fields_by_time_within_day:
  "HourFromTime w = HourFromTime (TimeWithinDay w)"
  "MinFromTime w = MinFromTime (TimeWithinDay w)"
  "SecFromTime w = SecFromTime (TimeWithinDay w)"
  "msFromTime w = msFromTime (TimeWithinDay w)"
proof -
  define n where "n = Day w"
  define r where "r = TimeWithinDay w"
  have w: "w = n * msPerDay + r"
    by (simp add: n_def r_def Day_TimeWithinDay)
  have h: "w = r + msPerHour * (24 * n)" "w = r + msPerMinute * (60 * (24 * n))"
    "w = r + msPerSecond * (60 * (1440 * n))" "w = r + msPerSecond * (86400 * n)"
    by (simp_all add: w msPerDay_def msPerHour_def msPerMinute_def msPerSecond_def)
  have "w div msPerHour = r div msPerHour + 24 * n"
    by (subst h(1)) (simp add: msPerHour_def)
  then show "HourFromTime w = HourFromTime (TimeWithinDay w)"
    unfolding HourFromTime_def r_def [symmetric] by (simp only: mod_mult_self2)
  have "w div msPerMinute = r div msPerMinute + 60 * (24 * n)"
    by (subst h(2)) (simp add: msPerMinute_def)
  then show "MinFromTime w = MinFromTime (TimeWithinDay w)"
    unfolding MinFromTime_def r_def [symmetric] by (simp only: mod_mult_self2)
  have "w div msPerSecond = r div msPerSecond + 60 * (1440 * n)"
    by (subst h(3)) (simp add: msPerSecond_def)
  then show "SecFromTime w = SecFromTime (TimeWithinDay w)"
    unfolding SecFromTime_def r_def [symmetric] by (simp only: mod_mult_self2)
  have "w mod msPerSecond = r mod msPerSecond"
    by (subst h(4)) (simp only: mod_mult_self2)
  then show "msFromTime w = msFromTime (TimeWithinDay w)"
    by (simp add: msFromTime_def r_def)
qed


lemma lands_exactly_on_day: "lands_exactly z w \<Longrightarrow> lands_on_day z w"
  by (simp add: lands_exactly_def lands_on_day_def)

lemma new_Date_clone:
  "\<bar>t\<bar> \<le> maxTime \<Longrightarrow> new_Date (getTime (Date (Some t))) = Date (Some t)"
  by (simp only: new_Date_def getTime_Date of_tv_simps TimeClip_of_int if_True)

lemma store_local_Some:
  "store_local z (Some w) = Date (if \<bar>UTC z w\<bar> \<le> maxTime then Some (UTC z w) else None)"
  by (simp only: store_local_def option.map clip_Some)

lemma store_local_lands:
  "lands_on_day z w \<Longrightarrow> store_local z (Some w) = Date (Some (UTC z w))"
  by (simp add: store_local_Some lands_on_day_def)

lemma local_field_Some [simp]:
  "local_field z f (Date (Some t)) = Fin (of_int (f (LocalTime z t)))"
  by (simp add: local_field_def)

lemma MakeDay_of_int [simp]:
  "MakeDay (Fin (of_int y)) (Fin (of_int m)) (Fin (of_int dt)) = Some (civil_day y m dt)"
  by simp

lemma trunc_numeral [simp]: "trunc 0 = 0" "trunc 1 = 1" "trunc (numeral k) = numeral k"
  by (simp_all add: trunc_def)

lemma setMonth_day0:
  "setMonth z (Fin (of_int mm)) (Fin 0) (Date (Some t)) =
     store_local z (Some (wall_clock (YearFromTime (LocalTime z t)) mm 0
       (TimeWithinDay (LocalTime z t))))"
  by (simp add: setMonth_def wall_clock_def Let_def)

lemma setFullYear_day0:
  "setFullYear z (Fin (of_int yy)) (Fin (of_int mm)) (Fin 0) (Date (Some t)) =
     store_local z (Some (wall_clock yy mm 0 (TimeWithinDay (LocalTime z t))))"
  by (simp add: setFullYear_def wall_clock_def Let_def)

lemma setDate_first:
  "setDate z (Fin 1) (Date (Some t)) =
     store_local z (Some (wall_clock (YearFromTime (LocalTime z t)) (MonthFromTime (LocalTime z t)) 1
       (TimeWithinDay (LocalTime z t))))"
  by (simp add: setDate_def wall_clock_def Let_def)

lemma setHours_start:
  "setHours z (Fin 0) (Fin 0) (Fin 0) (Fin 0) (Date (Some t)) =
     store_local z (Some (Day (LocalTime z t) * msPerDay))"
  by (simp add: setHours_def Let_def)

lemma setHours_end:
  "setHours z (Fin 23) (Fin 59) (Fin 59) (Fin 999) (Date (Some t)) =
     store_local z (Some (Day (LocalTime z t) * msPerDay + 86399999))"
  by (simp add: setHours_def Let_def msPerHour_def msPerMinute_def msPerSecond_def)

lemma wall_clock_last_day:
  "wall_clock y (m + 1) 0 tod =
     wall_clock (y + m div 12) (m mod 12) (days_in_month (y + m div 12) (m mod 12)) tod"
  by (simp only: wall_clock_def civil_day_zero)

lemma wall_clock_last_day_same_year:
  assumes "0 \<le> m" "m < 12"
  shows "wall_clock y (m + 1) 0 tod = wall_clock y m (days_in_month y m) tod"
  using assms by (simp add: wall_clock_last_day)


lemma addMonths_clamp_path:
  assumes e: "epoch r = Some t"
    and ti: "toInteger (DNum amount) = Fin (of_int a)"
    and nz: "a \<noteq> 0"
    and w_def: "w = LocalTime z t"
    and ty_def: "ty = YearFromTime w + (MonthFromTime w + a) div 12"
    and tm_def: "tm = (MonthFromTime w + a) mod 12"
    and clamp: "days_in_month ty tm \<le> DateFromTime w"
    and tw_def: "tw = wall_clock ty tm (days_in_month ty tm) (TimeWithinDay w)"
    and lands: "lands_on_day z tw"
  shows "addMonths z r amount = Inr (Date (Some (UTC z tw)))"
    and "Day (LocalTime z (UTC z tw)) = Day tw"
    and "YearFromTime tw = ty" and "MonthFromTime tw = tm"
    and "DateFromTime tw = days_in_month ty tm"
    and "TimeWithinDay tw = TimeWithinDay w"
proof -
  have tm: "0 \<le> tm" "tm < 12" by (simp_all add: tm_def)
  note dim = days_in_month_range [of ty tm]
  have dim1: "1 \<le> days_in_month ty tm" using dim by linarith
  note f = wall_clock_fields [OF tm dim1 order_refl TimeWithinDay_range, of w,
      unfolded tw_def [symmetric]]
  show "YearFromTime tw = ty" "MonthFromTime tw = tm" "DateFromTime tw = days_in_month ty tm"
    "TimeWithinDay tw = TimeWithinDay w"
    by (rule f)+
  show d: "Day (LocalTime z (UTC z tw)) = Day tw"
    using lands by (simp add: lands_on_day_def)
  have rng: "\<bar>t\<bar> \<le> maxTime" by (rule epoch_range [OF e])
  have month: "js_add (js_add (Fin (of_int (MonthFromTime w))) (Fin (of_int a))) (Fin 1)
      = Fin (of_int (MonthFromTime w + a + 1))"
    by simp
  have tw0: "wall_clock (YearFromTime w) (MonthFromTime w + a + 1) 0 (TimeWithinDay w) = tw"
    unfolding tw_def ty_def tm_def by (rule wall_clock_last_day)
  have eod: "setMonth z (Fin (of_int (MonthFromTime w + a + 1))) (Fin 0) (Date (Some t))
      = Date (Some (UTC z tw))"
    unfolding setMonth_day0 w_def [symmetric] tw0 by (rule store_local_lands [OF lands])
  have gd: "getDate z (Date (Some (UTC z tw))) = Fin (of_int (days_in_month ty tm))"
    using date_fields_by_day(3) [OF d] f(5) by (simp add: getDate_def)
  have gd0: "getDate z (Date (Some t)) = Fin (of_int (DateFromTime w))"
    by (simp add: getDate_def w_def)
  have nn: "\<not> isNaN (Fin (of_int a))" "\<not> js_not (Fin (of_int a))"
    using nz by (simp_all add: isNaN_def js_not_def)
  have ge: "js_ge (Fin (of_int (DateFromTime w))) (Fin (of_int (days_in_month ty tm)))"
    using clamp by (simp add: js_ge_def)
  show "addMonths z r amount = Inr (Date (Some (UTC z tw)))"
    unfolding addMonths_def toDate_epoch e ti
    using nn ge
    by (simp only: requiredArgs_same bindE_Inr Let_def if_False new_Date_clone [OF rng]
        Date_getMonth_def local_field_Some w_def [symmetric] month eod gd gd0 if_True)
qed


lemma clock_fields_of_wall:
  assumes "TimeWithinDay w = tod"
  shows "HourFromTime w = HourFromTime tod" "MinFromTime w = MinFromTime tod"
    "SecFromTime w = SecFromTime tod" "msFromTime w = msFromTime tod"
  by (simp_all only: clock_fields_by_time_within_day [of w] assms)

lemma js_add_Fin_1: "js_add (Fin (of_int m)) (Fin 1) = Fin (of_int (m + 1))"
  by simp

lemma endOfMonth_path:
  assumes e: "epoch r = Some t"
    and w_def: "w = LocalTime z t"
    and y_def: "y = YearFromTime w"
    and m_def: "m = MonthFromTime w"
    and w1: "lands_on_day z (wall_clock y m (days_in_month y m) (TimeWithinDay w))"
    and w2: "lands_on_day z (wall_clock y m (days_in_month y m) 86399999)"
  shows "endOfMonth z r = Inr (Date (Some (UTC z (wall_clock y m (days_in_month y m) 86399999))))"
proof -
  have m: "0 \<le> m" "m < 12" by (simp_all add: m_def MonthFromTime_range)
  have dim1: "1 \<le> days_in_month y m" using days_in_month_range [of y m] by linarith
  have s1: "setFullYear z (Fin (of_int y)) (Fin (of_int (m + 1))) (Fin 0) (Date (Some t))
      = Date (Some (UTC z (wall_clock y m (days_in_month y m) (TimeWithinDay w))))"
    unfolding setFullYear_day0 w_def [symmetric] wall_clock_last_day_same_year [OF m]
    by (rule store_local_lands [OF w1])
  have d1: "Day (LocalTime z (UTC z (wall_clock y m (days_in_month y m) (TimeWithinDay w))))
      = civil_day y m (days_in_month y m)"
    using w1 wall_clock_fields(1) [OF m dim1 order_refl TimeWithinDay_range, of w]
    by (simp add: lands_on_day_def)
  have s2: "setHours z (Fin 23) (Fin 59) (Fin 59) (Fin 999)
        (Date (Some (UTC z (wall_clock y m (days_in_month y m) (TimeWithinDay w)))))
      = Date (Some (UTC z (wall_clock y m (days_in_month y m) 86399999)))"
    unfolding setHours_end d1 wall_clock_def [symmetric]
    by (rule store_local_lands [OF w2])
  show ?thesis
    unfolding endOfMonth_def toDate_epoch e
    by (simp only: requiredArgs_same bindE_Inr Let_def Date_getMonth_def getFullYear_def
        local_field_Some w_def [symmetric] y_def [symmetric] m_def [symmetric] js_add_Fin_1 s1 s2)
qed

lemma startOfMonth_path:
  assumes m: "0 \<le> m" "m < 12" and dt: "1 \<le> dt" "dt \<le> days_in_month y m"
    and tod: "0 \<le> tod" "tod < msPerDay"
    and w2: "lands_exactly z (wall_clock y m dt tod)"
    and w3: "lands_on_day z (wall_clock y m 1 tod)"
    and w4: "lands_on_day z (wall_clock y m 1 0)"
  shows "startOfMonth z (RDate (Date (Some (UTC z (wall_clock y m dt tod)))))
    = Inr (Date (Some (UTC z (wall_clock y m 1 0))))"
proof -
  have rng: "\<bar>UTC z (wall_clock y m dt tod)\<bar> \<le> maxTime"
    and loc: "LocalTime z (UTC z (wall_clock y m dt tod)) = wall_clock y m dt tod"
    using w2 by (simp_all add: lands_exactly_def)
  note f = wall_clock_fields [OF m dt tod]
  have c: "toDate (RDate (Date (Some (UTC z (wall_clock y m dt tod)))))
      = Inr (Date (Some (UTC z (wall_clock y m dt tod))))"
    by (simp only: toDate.simps requiredArgs_same bindE_Inr new_Date_clone [OF rng])
  have s1: "setDate z (Fin 1) (Date (Some (UTC z (wall_clock y m dt tod))))
      = Date (Some (UTC z (wall_clock y m 1 tod)))"
    unfolding setDate_first loc f by (rule store_local_lands [OF w3])
  have one: "1 \<le> days_in_month y m" using dt by linarith
  have d3: "Day (LocalTime z (UTC z (wall_clock y m 1 tod))) = civil_day y m 1"
    using w3 wall_clock_fields(1) [OF m order_refl one tod]
    by (simp add: lands_on_day_def)
  have w40: "civil_day y m 1 * msPerDay = wall_clock y m 1 0"
    by (simp add: wall_clock_def)
  have s2: "setHours z (Fin 0) (Fin 0) (Fin 0) (Fin 0) (Date (Some (UTC z (wall_clock y m 1 tod))))
      = Date (Some (UTC z (wall_clock y m 1 0)))"
    unfolding setHours_start d3 w40 by (rule store_local_lands [OF w4])
  show ?thesis
    unfolding startOfMonth_def c
    by (simp only: requiredArgs_same bindE_Inr Let_def s1 s2)
qed

lemma start_of_month_fields:
  assumes m: "0 \<le> m" "m < 12" and w4: "lands_exactly z (wall_clock y m 1 0)"
  shows "getFullYear z (Date (Some (UTC z (wall_clock y m 1 0)))) = Fin (of_int y)"
    and "Date_getMonth z (Date (Some (UTC z (wall_clock y m 1 0)))) = Fin (of_int m)"
    and "getDate z (Date (Some (UTC z (wall_clock y m 1 0)))) = Fin 1"
    and "getHours z (Date (Some (UTC z (wall_clock y m 1 0)))) = Fin 0"
    and "getMinutes z (Date (Some (UTC z (wall_clock y m 1 0)))) = Fin 0"
    and "getSeconds z (Date (Some (UTC z (wall_clock y m 1 0)))) = Fin 0"
    and "getMilliseconds z (Date (Some (UTC z (wall_clock y m 1 0)))) = Fin 0"
proof -
  have loc: "LocalTime z (UTC z (wall_clock y m 1 0)) = wall_clock y m 1 0"
    using w4 by (simp add: lands_exactly_def)
  have one: "1 \<le> days_in_month y m" using days_in_month_range [of y m] by linarith
  have z0: "(0::int) \<le> 0" "0 < msPerDay" by (simp_all add: msPerDay_def)
  note f = wall_clock_fields [OF m order_refl one z0]
  show "getFullYear z (Date (Some (UTC z (wall_clock y m 1 0)))) = Fin (of_int y)"
    and "Date_getMonth z (Date (Some (UTC z (wall_clock y m 1 0)))) = Fin (of_int m)"
    and "getDate z (Date (Some (UTC z (wall_clock y m 1 0)))) = Fin 1"
    by (simp_all add: getFullYear_def Date_getMonth_def getDate_def loc f)
  note c = clock_fields_of_wall [OF f(2)]
  show "getHours z (Date (Some (UTC z (wall_clock y m 1 0)))) = Fin 0"
    by (simp add: getHours_def loc c(1)) (simp add: HourFromTime_def)
  show "getMinutes z (Date (Some (UTC z (wall_clock y m 1 0)))) = Fin 0"
    by (simp add: getMinutes_def loc c(2)) (simp add: MinFromTime_def)
  show "getSeconds z (Date (Some (UTC z (wall_clock y m 1 0)))) = Fin 0"
    by (simp add: getSeconds_def loc c(3)) (simp add: SecFromTime_def)
  show "getMilliseconds z (Date (Some (UTC z (wall_clock y m 1 0)))) = Fin 0"
    by (simp add: getMilliseconds_def loc c(4)) (simp add: msFromTime_def)
qed

section \<open>Evaluating the functions at a given instant\<close>

text \<open>
  The fields of a concrete instant are read off its wall-clock time: the day number of
  a calendar date is computed forwards, and \<open>wall_clock_fields\<close> gives the fields back.
\<close>

lemmas wall_eval = wall_clock_def civil_day_def DayFromYear_def days_before_month_def leap_def
  DaysInYear_def days_in_month_def msPerDay_def valid_wall_def maxTime_def

lemmas zone_eval = LocalTime_def UTC_def fixed_zone_def shifted_zone_def cet_2019_def
  paraguay_2017_def line_islands_1994_def

lemmas clock_eval = HourFromTime_def MinFromTime_def SecFromTime_def msFromTime_def
  msPerHour_def msPerMinute_def msPerSecond_def

lemma fields_at:
  assumes "w = wall_clock y m dt tod" and "valid_wall y m dt tod"
  shows "YearFromTime w = y" "MonthFromTime w = m" "DateFromTime w = dt" "TimeWithinDay w = tod"
    "Day w = civil_day y m dt"
  using assms(2) unfolding assms(1) valid_wall_def
  by (simp_all add: wall_clock_fields)

lemma local_at:
  assumes "LocalTime z t = wall_clock y m dt tod" and "valid_wall y m dt tod"
  shows "YearFromTime (LocalTime z t) = y" "MonthFromTime (LocalTime z t) = m"
    "DateFromTime (LocalTime z t) = dt" "TimeWithinDay (LocalTime z t) = tod"
    "Day (LocalTime z t) = civil_day y m dt"
  using assms(2) unfolding assms(1) valid_wall_def
  by (simp_all add: wall_clock_fields)

lemma getters_at:
  assumes "LocalTime z t = wall_clock y m dt tod" and "valid_wall y m dt tod"
  shows "getFullYear z (Date (Some t)) = Fin (of_int y)"
    "Date_getMonth z (Date (Some t)) = Fin (of_int m)"
    "getDate z (Date (Some t)) = Fin (of_int dt)"
    "getHours z (Date (Some t)) = Fin (of_int (HourFromTime tod))"
    "getMinutes z (Date (Some t)) = Fin (of_int (MinFromTime tod))"
    "getSeconds z (Date (Some t)) = Fin (of_int (SecFromTime tod))"
    "getMilliseconds z (Date (Some t)) = Fin (of_int (msFromTime tod))"
  using local_at [OF assms] clock_fields_of_wall [OF local_at(4) [OF assms]]
  by (simp_all add: getFullYear_def Date_getMonth_def getDate_def getHours_def getMinutes_def
      getSeconds_def getMilliseconds_def)

lemma store_local_at:
  "UTC z w = u \<Longrightarrow> \<bar>u\<bar> \<le> maxTime \<Longrightarrow> store_local z (Some w) = Date (Some u)"
  "UTC z w = u \<Longrightarrow> maxTime < \<bar>u\<bar> \<Longrightarrow> store_local z (Some w) = Date None"
  by (simp_all add: store_local_Some)

lemma setMonth_at:
  assumes "LocalTime z t = wall_clock y m dt tod" and "valid_wall y m dt tod"
  shows "setMonth z (Fin (of_int mm)) (Fin 0) (Date (Some t)) =
     store_local z (Some (wall_clock y mm 0 tod))"
  by (simp only: setMonth_day0 local_at [OF assms])

lemma setFullYear_at:
  assumes "LocalTime z t = wall_clock y m dt tod" and "valid_wall y m dt tod"
  shows "setFullYear z (Fin (of_int yy)) (Fin (of_int mm)) (Fin 0) (Date (Some t)) =
     store_local z (Some (wall_clock yy mm 0 tod))"
  by (simp only: setFullYear_day0 local_at [OF assms])

lemma setDate_at:
  assumes "LocalTime z t = wall_clock y m dt tod" and "valid_wall y m dt tod"
  shows "setDate z (Fin 1) (Date (Some t)) = store_local z (Some (wall_clock y m 1 tod))"
  by (simp only: setDate_first local_at [OF assms])

lemma setHours_at:
  assumes "LocalTime z t = wall_clock y m dt tod" and "valid_wall y m dt tod"
  shows "setHours z (Fin 0) (Fin 0) (Fin 0) (Fin 0) (Date (Some t)) =
       store_local z (Some (wall_clock y m dt 0))"
    and "setHours z (Fin 23) (Fin 59) (Fin 59) (Fin 999) (Date (Some t)) =
       store_local z (Some (wall_clock y m dt 86399999))"
  by (simp_all only: setHours_start setHours_end local_at [OF assms] wall_clock_def add_0_right)

lemma epoch_Date: "\<bar>t\<bar> \<le> maxTime \<Longrightarrow> epoch (RDate (Date (Some t))) = Some t"
  by (simp add: epoch_RDate clip_Some)

lemma addMonths_steps:
  assumes e: "epoch r = Some t"
    and ti: "toInteger (DNum amount) = Fin (of_int a)"
    and nz: "a \<noteq> 0"
    and dd: "getDate z (Date (Some t)) = Fin (of_int dd)"
    and m: "Date_getMonth z (Date (Some t)) = Fin (of_int m)"
    and eod: "setMonth z (Fin (of_int (m + a + 1))) (Fin 0) (Date (Some t)) = eod"
    and len: "getDate z eod = len"
  shows "addMonths z r amount =
     (if js_ge (Fin (of_int dd)) len then Inr eod
      else Inr (setFullYear z (getFullYear z eod) (Date_getMonth z eod) (Fin (of_int dd))
                  (Date (Some t))))"
proof -
  have rng: "\<bar>t\<bar> \<le> maxTime" by (rule epoch_range [OF e])
  have month: "js_add (js_add (Fin (of_int m)) (Fin (of_int a))) (Fin 1) = Fin (of_int (m + a + 1))"
    by simp
  have nn: "isNaN (Fin (of_int a)) = False" "js_not (Fin (of_int a)) = False"
    using nz by (simp_all add: isNaN_def js_not_def)
  show ?thesis
    unfolding addMonths_def toDate_epoch e ti
    by (simp only: requiredArgs_same bindE_Inr Let_def nn if_False new_Date_clone [OF rng]
        dd m month eod len)
qed

text \<open>
  \<^verbatim>\<open>addMonths\<close> on its first branch: the last day of the target month is stored as
  the instant \<open>u\<close>, whose local day of the month \<open>dt'\<close> is at most that of the date.
\<close>

lemma addMonths_clamp_eval:
  assumes e: "epoch r = Some t"
    and ti: "toInteger (DNum amount) = Fin (of_int a)"
    and nz: "a \<noteq> 0"
    and l0: "LocalTime z t = wall_clock y m dt tod" and v0: "valid_wall y m dt tod"
    and u: "UTC z (wall_clock y (m + a + 1) 0 tod) = u" and ru: "\<bar>u\<bar> \<le> maxTime"
    and l1: "LocalTime z u = wall_clock y' m' dt' tod'" and v1: "valid_wall y' m' dt' tod'"
    and le: "dt' \<le> dt"
  shows "addMonths z r amount = Inr (Date (Some u))"
proof -
  have s: "setMonth z (Fin (of_int (m + a + 1))) (Fin 0) (Date (Some t)) = Date (Some u)"
    unfolding setMonth_at [OF l0 v0] by (rule store_local_at(1) [OF u ru])
  show ?thesis
    using addMonths_steps [OF e ti nz getters_at(3) [OF l0 v0] getters_at(2) [OF l0 v0] s
        getters_at(3) [OF l1 v1]] le
    by (simp add: js_ge_def)
qed

text \<open>
  \<^verbatim>\<open>addMonths\<close> when the last day of the target month is out of the range of
  \<^verbatim>\<open>Date\<close>: the comparison with \<^verbatim>\<open>NaN\<close> fails, and \<^verbatim>\<open>setFullYear\<close> is called
  with \<^verbatim>\<open>NaN\<close>.
\<close>

lemma addMonths_overflow_eval:
  assumes e: "epoch r = Some t"
    and ti: "toInteger (DNum amount) = Fin (of_int a)"
    and nz: "a \<noteq> 0"
    and l0: "LocalTime z t = wall_clock y m dt tod" and v0: "valid_wall y m dt tod"
    and u: "UTC z (wall_clock y (m + a + 1) 0 tod) = u" and ru: "maxTime < \<bar>u\<bar>"
  shows "addMonths z r amount = Inr (Date None)"
proof -
  have s: "setMonth z (Fin (of_int (m + a + 1))) (Fin 0) (Date (Some t)) = Date None"
    unfolding setMonth_at [OF l0 v0] by (rule store_local_at(2) [OF u ru])
  show ?thesis
    using addMonths_steps [OF e ti nz getters_at(3) [OF l0 v0] getters_at(2) [OF l0 v0] s refl]
    by (simp add: js_ge_def)
qed

lemma endOfMonth_steps:
  assumes e: "epoch r = Some t"
    and y: "getFullYear z (Date (Some t)) = Fin (of_int y)"
    and m: "Date_getMonth z (Date (Some t)) = Fin (of_int m)"
    and s1: "setFullYear z (Fin (of_int y)) (Fin (of_int (m + 1))) (Fin 0) (Date (Some t)) = d1"
    and s2: "setHours z (Fin 23) (Fin 59) (Fin 59) (Fin 999) d1 = d2"
  shows "endOfMonth z r = Inr d2"
  unfolding endOfMonth_def toDate_epoch e
  by (simp only: requiredArgs_same bindE_Inr Let_def y m js_add_Fin_1 s1 s2)

lemma startOfMonth_steps:
  assumes e: "epoch r = Some t"
    and s1: "setDate z (Fin 1) (Date (Some t)) = d1"
    and s2: "setHours z (Fin 0) (Fin 0) (Fin 0) (Fin 0) d1 = d2"
  shows "startOfMonth z r = Inr d2"
  unfolding startOfMonth_def toDate_epoch e
  by (simp only: requiredArgs_same bindE_Inr Let_def s1 s2)

lemma endOfMonth_eval:
  assumes e: "epoch r = Some t"
    and l0: "LocalTime z t = wall_clock y m dt tod" and v0: "valid_wall y m dt tod"
    and u1: "UTC z (wall_clock y (m + 1) 0 tod) = u1" and r1: "\<bar>u1\<bar> \<le> maxTime"
    and l1: "LocalTime z u1 = wall_clock y1 m1 dt1 tod1" and v1: "valid_wall y1 m1 dt1 tod1"
    and u2: "UTC z (wall_clock y1 m1 dt1 86399999) = u2" and r2: "\<bar>u2\<bar> \<le> maxTime"
  shows "endOfMonth z r = Inr (Date (Some u2))"
proof -
  have s1: "setFullYear z (Fin (of_int y)) (Fin (of_int (m + 1))) (Fin 0) (Date (Some t))
      = Date (Some u1)"
    unfolding setFullYear_at [OF l0 v0] by (rule store_local_at(1) [OF u1 r1])
  have s2: "setHours z (Fin 23) (Fin 59) (Fin 59) (Fin 999) (Date (Some u1)) = Date (Some u2)"
    unfolding setHours_at(2) [OF l1 v1] by (rule store_local_at(1) [OF u2 r2])
  show ?thesis
    by (rule endOfMonth_steps [OF e getters_at(1) [OF l0 v0] getters_at(2) [OF l0 v0] s1 s2])
qed

lemma endOfMonth_overflow_eval:
  assumes e: "epoch r = Some t"
    and l0: "LocalTime z t = wall_clock y m dt tod" and v0: "valid_wall y m dt tod"
    and u1: "UTC z (wall_clock y (m + 1) 0 tod) = u1" and r1: "maxTime < \<bar>u1\<bar>"
  shows "endOfMonth z r = Inr (Date None)"
proof -
  have s1: "setFullYear z (Fin (of_int y)) (Fin (of_int (m + 1))) (Fin 0) (Date (Some t))
      = Date None"
    unfolding setFullYear_at [OF l0 v0] by (rule store_local_at(2) [OF u1 r1])
  show ?thesis
    by (rule endOfMonth_steps [OF e getters_at(1) [OF l0 v0] getters_at(2) [OF l0 v0] s1])
      simp
qed

lemma startOfMonth_eval:
  assumes e: "epoch r = Some t"
    and l0: "LocalTime z t = wall_clock y m dt tod" and v0: "valid_wall y m dt tod"
    and u1: "UTC z (wall_clock y m 1 tod) = u1" and r1: "\<bar>u1\<bar> \<le> maxTime"
    and l1: "LocalTime z u1 = wall_clock y1 m1 dt1 tod1" and v1: "valid_wall y1 m1 dt1 tod1"
    and u2: "UTC z (wall_clock y1 m1 dt1 0) = u2" and r2: "\<bar>u2\<bar> \<le> maxTime"
  shows "startOfMonth z r = Inr (Date (Some u2))"
proof -
  have s1: "setDate z (Fin 1) (Date (Some t)) = Date (Some u1)"
    unfolding setDate_at [OF l0 v0] by (rule store_local_at(1) [OF u1 r1])
  have s2: "setHours z (Fin 0) (Fin 0) (Fin 0) (Fin 0) (Date (Some u1)) = Date (Some u2)"
    unfolding setHours_at(1) [OF l1 v1] by (rule store_local_at(1) [OF u2 r2])
  show ?thesis
    by (rule startOfMonth_steps [OF e s1 s2])
qed

section \<open>End-of-month clamping\<close>

text \<open>
  Claim C1, as stated, holds for every valid instant and every nonzero amount. It fails
  where the last day of the target month is beyond the range of \<^verbatim>\<open>Date\<close>: 31 January
  1970 (UTC) plus 12000000 months is an Invalid Date, not 31 January 1001970. It also
  fails where the host's zone has no such day: in the zone of the Line Islands, 31
  October 1994 plus 2 months is 1 January 1995, since 31 December 1994 was skipped.
\<close>

theorem addMonths_clamps_counterexample:
  "getDate (fixed_zone 0) (Date (Some 2592000000)) = Fin 31
   \<and> days_in_month (1970 + 12000000 div 12) (12000000 mod 12) = 31
   \<and> addMonths (fixed_zone 0) (RDate (Date (Some 2592000000))) (Fin 12000000) = Inr (Date None)
   \<and> getFullYear line_islands_1994 (Date (Some 783640800000)) = Fin 1994
   \<and> Date_getMonth line_islands_1994 (Date (Some 783640800000)) = Fin 9
   \<and> getDate line_islands_1994 (Date (Some 783640800000)) = Fin 31
   \<and> days_in_month 1994 11 = 31
   \<and> addMonths line_islands_1994 (RDate (Date (Some 783640800000))) (Fin 2)
       = Inr (Date (Some 788911200000))
   \<and> getFullYear line_islands_1994 (Date (Some 788911200000)) = Fin 1995
   \<and> Date_getMonth line_islands_1994 (Date (Some 788911200000)) = Fin 0
   \<and> getDate line_islands_1994 (Date (Some 788911200000)) = Fin 1"
proof -
  have u0: "LocalTime (fixed_zone 0) 2592000000 = wall_clock 1970 0 31 0"
    and u0v: "valid_wall 1970 0 31 0"
    by (simp_all add: zone_eval wall_eval)
  note g0 = getters_at [OF u0 u0v]
  have a2: "days_in_month (1970 + 12000000 div 12) (12000000 mod 12) = 31"
    by (simp add: wall_eval)
  have e0: "epoch (RDate (Date (Some 2592000000))) = Some 2592000000"
    by (simp add: epoch_Date maxTime_def)
  have ti0: "toInteger (DNum (Fin 12000000)) = Fin (of_int 12000000)"
    by (simp add: isNaN_def)
  have a3: "addMonths (fixed_zone 0) (RDate (Date (Some 2592000000))) (Fin 12000000)
      = Inr (Date None)"
    by (rule addMonths_overflow_eval [OF e0 ti0 _ u0 u0v, where u = 31556954592000000])
      (simp_all add: zone_eval wall_eval)
  have l0: "LocalTime line_islands_1994 783640800000 = wall_clock 1994 9 31 43200000"
    and l0v: "valid_wall 1994 9 31 43200000"
    by (simp_all add: zone_eval wall_eval)
  note b = getters_at [OF l0 l0v]
  have b4: "days_in_month 1994 11 = 31" by (simp add: wall_eval)
  have l1: "LocalTime line_islands_1994 788911200000 = wall_clock 1995 0 1 43200000"
    and l1v: "valid_wall 1995 0 1 43200000"
    by (simp_all add: zone_eval wall_eval)
  note c = getters_at [OF l1 l1v]
  have e1: "epoch (RDate (Date (Some 783640800000))) = Some 783640800000"
    by (simp add: epoch_Date maxTime_def)
  have ti1: "toInteger (DNum (Fin 2)) = Fin (of_int 2)"
    by (simp add: isNaN_def)
  have b5: "addMonths line_islands_1994 (RDate (Date (Some 783640800000))) (Fin 2)
       = Inr (Date (Some 788911200000))"
    by (rule addMonths_clamp_eval [OF e1 ti1 _ l0 l0v _ _ l1 l1v])
      (simp_all add: zone_eval wall_eval)
  from g0(3) a2 a3 b(1-3) b4 b5 c(1-3) show ?thesis by simp
qed

text \<open>
  Claim C1, amended. Let \<open>w\<close> be the local time of a valid instant, \<open>a\<close> the nonzero
  integer the amount coerces to, and \<open>ty\<close>, \<open>tm\<close> the year and month of the target month
  (the month of \<open>w\<close> plus \<open>a\<close>). When the day of the month of \<open>w\<close> is at least the
  number of days of the target month, and the last day of the target month at the time
  of day of \<open>w\<close> is stored as an instant within the range of \<^verbatim>\<open>Date\<close> that falls on
  that day in the host's zone, \<^verbatim>\<open>addMonths\<close> returns that instant: its local year,
  month and day are the last day of the target month. In UTC, 31 January 2019 plus one
  month is 28 February 2019, and 31 January 2020 plus one month is 29 February 2020.
\<close>

theorem addMonths_clamps_to_last_day:
  assumes "epoch r = Some t"
    and "toInteger (DNum amount) = Fin (of_int a)" and "a \<noteq> 0"
    and "w = LocalTime z t"
    and "ty = YearFromTime w + (MonthFromTime w + a) div 12"
    and "tm = (MonthFromTime w + a) mod 12"
    and "days_in_month ty tm \<le> DateFromTime w"
    and "tw = wall_clock ty tm (days_in_month ty tm) (TimeWithinDay w)"
    and "lands_on_day z tw"
  shows "addMonths z r amount = Inr (Date (Some (UTC z tw)))
    \<and> getFullYear z (Date (Some (UTC z tw))) = Fin (of_int ty)
    \<and> Date_getMonth z (Date (Some (UTC z tw))) = Fin (of_int tm)
    \<and> getDate z (Date (Some (UTC z tw))) = Fin (of_int (days_in_month ty tm))
    \<and> getFullYear (fixed_zone 0) (Date (Some 1548892800000)) = Fin 2019
    \<and> Date_getMonth (fixed_zone 0) (Date (Some 1548892800000)) = Fin 0
    \<and> getDate (fixed_zone 0) (Date (Some 1548892800000)) = Fin 31
    \<and> addMonths (fixed_zone 0) (RDate (Date (Some 1548892800000))) (Fin 1)
        = Inr (Date (Some 1551312000000))
    \<and> getFullYear (fixed_zone 0) (Date (Some 1551312000000)) = Fin 2019
    \<and> Date_getMonth (fixed_zone 0) (Date (Some 1551312000000)) = Fin 1
    \<and> getDate (fixed_zone 0) (Date (Some 1551312000000)) = Fin 28
    \<and> getFullYear (fixed_zone 0) (Date (Some 1580428800000)) = Fin 2020
    \<and> Date_getMonth (fixed_zone 0) (Date (Some 1580428800000)) = Fin 0
    \<and> getDate (fixed_zone 0) (Date (Some 1580428800000)) = Fin 31
    \<and> addMonths (fixed_zone 0) (RDate (Date (Some 1580428800000))) (Fin 1)
        = Inr (Date (Some 1582934400000))
    \<and> getFullYear (fixed_zone 0) (Date (Some 1582934400000)) = Fin 2020
    \<and> Date_getMonth (fixed_zone 0) (Date (Some 1582934400000)) = Fin 1
    \<and> getDate (fixed_zone 0) (Date (Some 1582934400000)) = Fin 29"
proof -
  note p = addMonths_clamp_path [OF assms]
  have y: "getFullYear z (Date (Some (UTC z tw))) = Fin (of_int ty)"
    using date_fields_by_day(1) [OF p(2)] p(3) by (simp add: getFullYear_def)
  have m: "Date_getMonth z (Date (Some (UTC z tw))) = Fin (of_int tm)"
    using date_fields_by_day(2) [OF p(2)] p(4) by (simp add: Date_getMonth_def)
  have d: "getDate z (Date (Some (UTC z tw))) = Fin (of_int (days_in_month ty tm))"
    using date_fields_by_day(3) [OF p(2)] p(5) by (simp add: getDate_def)
  have ti: "toInteger (DNum (Fin 1)) = Fin (of_int 1)"
    by (simp add: isNaN_def)
  have a0: "LocalTime (fixed_zone 0) 1548892800000 = wall_clock 2019 0 31 0"
    and a0v: "valid_wall 2019 0 31 0"
    and a1: "LocalTime (fixed_zone 0) 1551312000000 = wall_clock 2019 1 28 0"
    and a1v: "valid_wall 2019 1 28 0"
    by (simp_all add: zone_eval wall_eval)
  have ea: "epoch (RDate (Date (Some 1548892800000))) = Some 1548892800000"
    by (simp add: epoch_Date maxTime_def)
  have ra: "addMonths (fixed_zone 0) (RDate (Date (Some 1548892800000))) (Fin 1)
        = Inr (Date (Some 1551312000000))"
    by (rule addMonths_clamp_eval [OF ea ti _ a0 a0v _ _ a1 a1v])
      (simp_all add: zone_eval wall_eval)
  have b0: "LocalTime (fixed_zone 0) 1580428800000 = wall_clock 2020 0 31 0"
    and b0v: "valid_wall 2020 0 31 0"
    and b1: "LocalTime (fixed_zone 0) 1582934400000 = wall_clock 2020 1 29 0"
    and b1v: "valid_wall 2020 1 29 0"
    by (simp_all add: zone_eval wall_eval)
  have eb: "epoch (RDate (Date (Some 1580428800000))) = Some 1580428800000"
    by (simp add: epoch_Date maxTime_def)
  have rb: "addMonths (fixed_zone 0) (RDate (Date (Some 1580428800000))) (Fin 1)
        = Inr (Date (Some 1582934400000))"
    by (rule addMonths_clamp_eval [OF eb ti _ b0 b0v _ _ b1 b1v])
      (simp_all add: zone_eval wall_eval)
  note ga0 = getters_at(1-3) [OF a0 a0v] and ga1 = getters_at(1-3) [OF a1 a1v]
    and gb0 = getters_at(1-3) [OF b0 b0v] and gb1 = getters_at(1-3) [OF b1 b1v]
  from p(1) y m d ra rb ga0 ga1 gb0 gb1 show ?thesis by simp
qed

theorem addMonths_clamps_to_last_day_witness:
  "epoch (RDate (Date (Some 1548898200000))) = Some 1548898200000
   \<and> toInteger (DNum (Fin 2)) = Fin (of_int 2) \<and> (2::int) \<noteq> 0
   \<and> 1548901800000 = LocalTime cet_2019 1548898200000
   \<and> 2019 = YearFromTime 1548901800000 + (MonthFromTime 1548901800000 + 2) div 12
   \<and> 2 = (MonthFromTime 1548901800000 + 2) mod 12
   \<and> days_in_month 2019 2 \<le> DateFromTime 1548901800000
   \<and> 1553999400000 = wall_clock 2019 2 (days_in_month 2019 2) (TimeWithinDay 1548901800000)
   \<and> lands_on_day cet_2019 1553999400000
   \<and> addMonths cet_2019 (RDate (Date (Some 1548898200000))) (Fin 2)
       = Inr (Date (Some (UTC cet_2019 1553999400000)))
   \<and> getFullYear cet_2019 (Date (Some (UTC cet_2019 1553999400000))) = Fin (of_int 2019)
   \<and> Date_getMonth cet_2019 (Date (Some (UTC cet_2019 1553999400000))) = Fin (of_int 2)
   \<and> getDate cet_2019 (Date (Some (UTC cet_2019 1553999400000)))
       = Fin (of_int (days_in_month 2019 2))"
proof -
  have w: "1548901800000 = wall_clock 2019 0 31 9000000" and v: "valid_wall 2019 0 31 9000000"
    by (simp_all add: wall_eval)
  note f = fields_at [OF w v]
  have 1: "epoch (RDate (Date (Some 1548898200000))) = Some 1548898200000"
    by (simp add: epoch_Date maxTime_def)
  have 2: "toInteger (DNum (Fin 2)) = Fin (of_int 2)" by (simp add: isNaN_def)
  have 3: "(2::int) \<noteq> 0" by simp
  have 4: "1548901800000 = LocalTime cet_2019 1548898200000" by (simp add: zone_eval)
  have 5: "2019 = YearFromTime 1548901800000 + (MonthFromTime 1548901800000 + 2) div 12"
    by (simp add: f)
  have 6: "2 = (MonthFromTime 1548901800000 + 2) mod 12" by (simp add: f)
  have 7: "days_in_month 2019 2 \<le> DateFromTime 1548901800000"
    by (simp add: f days_in_month_def)
  have 8: "1553999400000 = wall_clock 2019 2 (days_in_month 2019 2) (TimeWithinDay 1548901800000)"
    by (simp add: f) (simp add: wall_eval)
  have 9: "lands_on_day cet_2019 1553999400000"
    by (simp add: lands_on_day_def zone_eval Day_def msPerDay_def maxTime_def)
  from 1 2 3 4 5 6 7 8 9 addMonths_clamps_to_last_day [OF 1 2 3 4 5 6 7 8 9]
  show ?thesis by simp
qed

section \<open>The time of day of a clamped result\<close>

text \<open>
  Claim C9, as stated, holds for every valid instant and every nonzero amount for which
  clamping applies. It fails where a transition of the host's zone skips the time of day
  on the last day of the target month: in central Europe, 31 January 2019 02:30 plus 2
  months is 31 March 2019 03:30, the hour from 02:00 to 03:00 being skipped that day (the
  comment in the source says that the object returned on this branch may have had its
  time changed). It also fails where the result is out of the range of \<^verbatim>\<open>Date\<close>: the
  fields of an Invalid Date are \<^verbatim>\<open>NaN\<close>.
\<close>

theorem addMonths_time_of_day_counterexample:
  "getDate cet_2019 (Date (Some 1548898200000)) = Fin 31
   \<and> getHours cet_2019 (Date (Some 1548898200000)) = Fin 2
   \<and> getMinutes cet_2019 (Date (Some 1548898200000)) = Fin 30
   \<and> days_in_month 2019 2 = 31
   \<and> addMonths cet_2019 (RDate (Date (Some 1548898200000))) (Fin 2)
       = Inr (Date (Some 1553995800000))
   \<and> Date_getMonth cet_2019 (Date (Some 1553995800000)) = Fin 2
   \<and> getDate cet_2019 (Date (Some 1553995800000)) = Fin 31
   \<and> getHours cet_2019 (Date (Some 1553995800000)) = Fin 3
   \<and> getMinutes cet_2019 (Date (Some 1553995800000)) = Fin 30
   \<and> getHours (fixed_zone 0) (Date (Some 2592000000)) = Fin 0
   \<and> addMonths (fixed_zone 0) (RDate (Date (Some 2592000000))) (Fin 12000000) = Inr (Date None)
   \<and> getHours (fixed_zone 0) (Date None) = NaN"
proof -
  have l0: "LocalTime cet_2019 1548898200000 = wall_clock 2019 0 31 9000000"
    and l0v: "valid_wall 2019 0 31 9000000"
    and l1: "LocalTime cet_2019 1553995800000 = wall_clock 2019 2 31 12600000"
    and l1v: "valid_wall 2019 2 31 12600000"
    by (simp_all add: zone_eval wall_eval)
  have h: "HourFromTime 9000000 = 2" "MinFromTime 9000000 = 30"
    "HourFromTime 12600000 = 3" "MinFromTime 12600000 = 30" "HourFromTime 0 = 0"
    by (simp_all add: clock_eval)
  note g0 = getters_at [OF l0 l0v, unfolded h] and g1 = getters_at [OF l1 l1v, unfolded h]
  have dm: "days_in_month 2019 2 = 31" by (simp add: wall_eval)
  have e: "epoch (RDate (Date (Some 1548898200000))) = Some 1548898200000"
    by (simp add: epoch_Date maxTime_def)
  have ti: "toInteger (DNum (Fin 2)) = Fin (of_int 2)" by (simp add: isNaN_def)
  have r: "addMonths cet_2019 (RDate (Date (Some 1548898200000))) (Fin 2)
       = Inr (Date (Some 1553995800000))"
    by (rule addMonths_clamp_eval [OF e ti _ l0 l0v _ _ l1 l1v])
      (simp_all add: zone_eval wall_eval)
  have u0: "LocalTime (fixed_zone 0) 2592000000 = wall_clock 1970 0 31 0"
    and u0v: "valid_wall 1970 0 31 0"
    by (simp_all add: zone_eval wall_eval)
  note gu = getters_at(4) [OF u0 u0v, unfolded h]
  have e0: "epoch (RDate (Date (Some 2592000000))) = Some 2592000000"
    by (simp add: epoch_Date maxTime_def)
  have ti0: "toInteger (DNum (Fin 12000000)) = Fin (of_int 12000000)"
    by (simp add: isNaN_def)
  have o: "addMonths (fixed_zone 0) (RDate (Date (Some 2592000000))) (Fin 12000000)
      = Inr (Date None)"
    by (rule addMonths_overflow_eval [OF e0 ti0 _ u0 u0v, where u = 31556954592000000])
      (simp_all add: zone_eval wall_eval)
  have n: "getHours (fixed_zone 0) (Date None) = NaN"
    by (simp add: getHours_def)
  from g0(3,4,5) dm r g1(2,3,4,5) gu o n show ?thesis by simp
qed

text \<open>
  Claim C9, amended. With \<open>w\<close>, \<open>a\<close>, \<open>ty\<close> and \<open>tm\<close> as for claim C1: when clamping
  applies, and the last day of the target month at the time of day of \<open>w\<close> is a
  wall-clock time the host's zone does not skip and whose instant is within the range of
  \<^verbatim>\<open>Date\<close>, \<^verbatim>\<open>addMonths\<close> returns the instant of that wall-clock time: its hours,
  minutes, seconds and milliseconds are those of the date, and its day is the last day
  of the target month.
\<close>

theorem addMonths_keeps_time_of_day:
  assumes "epoch r = Some t"
    and "toInteger (DNum amount) = Fin (of_int a)" and "a \<noteq> 0"
    and "w = LocalTime z t"
    and "ty = YearFromTime w + (MonthFromTime w + a) div 12"
    and "tm = (MonthFromTime w + a) mod 12"
    and "days_in_month ty tm \<le> DateFromTime w"
    and "tw = wall_clock ty tm (days_in_month ty tm) (TimeWithinDay w)"
    and "lands_exactly z tw"
  shows "addMonths z r amount = Inr (Date (Some (UTC z tw)))
    \<and> getHours z (Date (Some (UTC z tw))) = getHours z (Date (Some t))
    \<and> getMinutes z (Date (Some (UTC z tw))) = getMinutes z (Date (Some t))
    \<and> getSeconds z (Date (Some (UTC z tw))) = getSeconds z (Date (Some t))
    \<and> getMilliseconds z (Date (Some (UTC z tw))) = getMilliseconds z (Date (Some t))
    \<and> getDate z (Date (Some (UTC z tw))) = Fin (of_int (days_in_month ty tm))
    \<and> TimeWithinDay (LocalTime z (UTC z tw)) = TimeWithinDay (LocalTime z t)"
proof -
  note p = addMonths_clamp_path [OF assms(1-8) lands_exactly_on_day [OF assms(9)]]
  have loc: "LocalTime z (UTC z tw) = tw"
    using assms(9) by (simp add: lands_exactly_def)
  have tod: "TimeWithinDay (LocalTime z (UTC z tw)) = TimeWithinDay (LocalTime z t)"
    unfolding loc p(6) assms(4) ..
  note c1 = clock_fields_by_time_within_day [of "LocalTime z (UTC z tw)"]
  note c2 = clock_fields_by_time_within_day [of "LocalTime z t"]
  have h: "getHours z (Date (Some (UTC z tw))) = getHours z (Date (Some t))"
    unfolding getHours_def local_field_Some c1(1) tod c2(1) [symmetric] ..
  have mi: "getMinutes z (Date (Some (UTC z tw))) = getMinutes z (Date (Some t))"
    unfolding getMinutes_def local_field_Some c1(2) tod c2(2) [symmetric] ..
  have se: "getSeconds z (Date (Some (UTC z tw))) = getSeconds z (Date (Some t))"
    unfolding getSeconds_def local_field_Some c1(3) tod c2(3) [symmetric] ..
  have ms: "getMilliseconds z (Date (Some (UTC z tw))) = getMilliseconds z (Date (Some t))"
    unfolding getMilliseconds_def local_field_Some c1(4) tod c2(4) [symmetric] ..
  have d: "getDate z (Date (Some (UTC z tw))) = Fin (of_int (days_in_month ty tm))"
    using p(5) by (simp add: getDate_def loc)
  from p(1) h mi se ms d tod show ?thesis by blast
qed

theorem addMonths_keeps_time_of_day_witness:
  "epoch (RDate (Date (Some 1548926130250))) = Some 1548926130250
   \<and> toInteger (DNum (Fin 1)) = Fin (of_int 1) \<and> (1::int) \<noteq> 0
   \<and> 1548929730250 = LocalTime cet_2019 1548926130250
   \<and> 2019 = YearFromTime 1548929730250 + (MonthFromTime 1548929730250 + 1) div 12
   \<and> 1 = (MonthFromTime 1548929730250 + 1) mod 12
   \<and> days_in_month 2019 1 \<le> DateFromTime 1548929730250
   \<and> 1551348930250 = wall_clock 2019 1 (days_in_month 2019 1) (TimeWithinDay 1548929730250)
   \<and> lands_exactly cet_2019 1551348930250
   \<and> addMonths cet_2019 (RDate (Date (Some 1548926130250))) (Fin 1)
       = Inr (Date (Some (UTC cet_2019 1551348930250)))
   \<and> getHours cet_2019 (Date (Some (UTC cet_2019 1551348930250)))
       = getHours cet_2019 (Date (Some 1548926130250))
   \<and> getMinutes cet_2019 (Date (Some (UTC cet_2019 1551348930250)))
       = getMinutes cet_2019 (Date (Some 1548926130250))
   \<and> getSeconds cet_2019 (Date (Some (UTC cet_2019 1551348930250)))
       = getSeconds cet_2019 (Date (Some 1548926130250))
   \<and> getMilliseconds cet_2019 (Date (Some (UTC cet_2019 1551348930250)))
       = getMilliseconds cet_2019 (Date (Some 1548926130250))"
proof -
  have w: "1548929730250 = wall_clock 2019 0 31 36930250"
    and v: "valid_wall 2019 0 31 36930250"
    by (simp_all add: wall_eval)
  note f = fields_at [OF w v]
  have 1: "epoch (RDate (Date (Some 1548926130250))) = Some 1548926130250"
    by (simp add: epoch_Date maxTime_def)
  have 2: "toInteger (DNum (Fin 1)) = Fin (of_int 1)" by (simp add: isNaN_def)
  have 3: "(1::int) \<noteq> 0" by simp
  have 4: "1548929730250 = LocalTime cet_2019 1548926130250" by (simp add: zone_eval)
  have 5: "2019 = YearFromTime 1548929730250 + (MonthFromTime 1548929730250 + 1) div 12"
    by (simp add: f)
  have 6: "1 = (MonthFromTime 1548929730250 + 1) mod 12" by (simp add: f)
  have 7: "days_in_month 2019 1 \<le> DateFromTime 1548929730250"
    by (simp add: f) (simp add: wall_eval)
  have 8: "1551348930250 = wall_clock 2019 1 (days_in_month 2019 1) (TimeWithinDay 1548929730250)"
    by (simp add: f) (simp add: wall_eval)
  have 9: "lands_exactly cet_2019 1551348930250"
    by (simp add: lands_exactly_def zone_eval maxTime_def)
  from 1 2 3 4 5 6 7 8 9 addMonths_keeps_time_of_day [OF 1 2 3 4 5 6 7 8 9]
  show ?thesis by simp
qed

section \<open>From the end of a month back to its start\<close>

text \<open>
  Claim C8, as stated, holds for every valid instant. It fails where the month of the
  instant is not wholly within the range of \<^verbatim>\<open>Date\<close>: the last valid instant is 13
  September 275760 (UTC), the end of its month is an Invalid Date, and so is the start
  of that. It also fails where a transition of the host's zone skips the midnight of the
  first day: in the zone of Paraguay, the start of October 2017 is 01:00 of 1 October.
\<close>

theorem month_round_trip_counterexample:
  "getFullYear (fixed_zone 0) (Date (Some 8640000000000000)) = Fin 275760
   \<and> Date_getMonth (fixed_zone 0) (Date (Some 8640000000000000)) = Fin 8
   \<and> bindE (endOfMonth (fixed_zone 0) (RDate (Date (Some 8640000000000000))))
        (\<lambda>e. startOfMonth (fixed_zone 0) (RDate e)) = Inr (Date None)
   \<and> getFullYear (fixed_zone 0) (Date None) = NaN
   \<and> Date_getMonth paraguay_2017 (Date (Some 1508079600000)) = Fin 9
   \<and> bindE (endOfMonth paraguay_2017 (RDate (Date (Some 1508079600000))))
        (\<lambda>e. startOfMonth paraguay_2017 (RDate e)) = Inr (Date (Some 1506830400000))
   \<and> Date_getMonth paraguay_2017 (Date (Some 1506830400000)) = Fin 9
   \<and> getDate paraguay_2017 (Date (Some 1506830400000)) = Fin 1
   \<and> getHours paraguay_2017 (Date (Some 1506830400000)) = Fin 1"
proof -
  have a0: "LocalTime (fixed_zone 0) 8640000000000000 = wall_clock 275760 8 13 0"
    and a0v: "valid_wall 275760 8 13 0"
    by (simp_all add: zone_eval wall_eval)
  note ga = getters_at(1,2) [OF a0 a0v]
  have ea: "epoch (RDate (Date (Some 8640000000000000))) = Some 8640000000000000"
    by (simp add: epoch_Date maxTime_def)
  have a1: "endOfMonth (fixed_zone 0) (RDate (Date (Some 8640000000000000))) = Inr (Date None)"
    by (rule endOfMonth_overflow_eval [OF ea a0 a0v, where ?u1.0 = 8640001468800000])
      (simp_all add: zone_eval wall_eval)
  have a2: "startOfMonth (fixed_zone 0) (RDate (Date None)) = Inr (Date None)"
    by (simp add: startOfMonth_def new_Date_def)
  have a3: "bindE (endOfMonth (fixed_zone 0) (RDate (Date (Some 8640000000000000))))
        (\<lambda>e. startOfMonth (fixed_zone 0) (RDate e)) = Inr (Date None)"
    by (simp only: a1 bindE_Inr a2)
  have a4: "getFullYear (fixed_zone 0) (Date None) = NaN" by simp
  have p0: "LocalTime paraguay_2017 1508079600000 = wall_clock 2017 9 15 43200000"
    and p0v: "valid_wall 2017 9 15 43200000"
    and p1: "LocalTime paraguay_2017 1509462000000 = wall_clock 2017 9 31 43200000"
    and p1v: "valid_wall 2017 9 31 43200000"
    and p2: "LocalTime paraguay_2017 1509505199999 = wall_clock 2017 9 31 86399999"
    and p2v: "valid_wall 2017 9 31 86399999"
    and p3: "LocalTime paraguay_2017 1506913199999 = wall_clock 2017 9 1 86399999"
    and p3v: "valid_wall 2017 9 1 86399999"
    and p4: "LocalTime paraguay_2017 1506830400000 = wall_clock 2017 9 1 3600000"
    and p4v: "valid_wall 2017 9 1 3600000"
    by (simp_all add: zone_eval wall_eval)
  have ep: "epoch (RDate (Date (Some 1508079600000))) = Some 1508079600000"
    and ep2: "epoch (RDate (Date (Some 1509505199999))) = Some 1509505199999"
    by (simp_all add: epoch_Date maxTime_def)
  have b1: "endOfMonth paraguay_2017 (RDate (Date (Some 1508079600000)))
      = Inr (Date (Some 1509505199999))"
    by (rule endOfMonth_eval [OF ep p0 p0v _ _ p1 p1v]) (simp_all add: zone_eval wall_eval)
  have b2: "startOfMonth paraguay_2017 (RDate (Date (Some 1509505199999)))
      = Inr (Date (Some 1506830400000))"
    by (rule startOfMonth_eval [OF ep2 p2 p2v _ _ p3 p3v]) (simp_all add: zone_eval wall_eval)
  have b3: "bindE (endOfMonth paraguay_2017 (RDate (Date (Some 1508079600000))))
        (\<lambda>e. startOfMonth paraguay_2017 (RDate e)) = Inr (Date (Some 1506830400000))"
    by (simp only: b1 bindE_Inr b2)
  have h: "HourFromTime 3600000 = 1" by (simp add: clock_eval)
  note gp0 = getters_at(2) [OF p0 p0v] and gp4 = getters_at(2-4) [OF p4 p4v, unfolded h]
  from ga a3 a4 gp0 b3 gp4 show ?thesis by simp
qed

text \<open>
  Claim C8, amended. Let \<open>w\<close> be the local time of a valid instant \<open>d\<close>, in year \<open>y\<close>
  and month \<open>m\<close>. The two functions make four calls of setters, which store the last day
  of the month at the time of day of \<open>w\<close>, that day at 23:59:59.999, the first day at
  23:59:59.999 and the first day at 00:00:00.000. When each of these is stored as an
  instant within the range of \<^verbatim>\<open>Date\<close> that falls on its day, and the second and the
  fourth are wall-clock times the host's zone does not skip,
  \<^verbatim>\<open>startOfMonth(endOfMonth(d))\<close> has the year and month of \<open>d\<close>, day 1 and the local
  time 00:00:00.000.
\<close>

theorem month_round_trip:
  assumes "epoch r = Some t"
    and "w = LocalTime z t" and "y = YearFromTime w" and "m = MonthFromTime w"
    and "lands_on_day z (wall_clock y m (days_in_month y m) (TimeWithinDay w))"
    and "lands_exactly z (wall_clock y m (days_in_month y m) 86399999)"
    and "lands_on_day z (wall_clock y m 1 86399999)"
    and "lands_exactly z (wall_clock y m 1 0)"
  shows "bindE (endOfMonth z r) (\<lambda>e. startOfMonth z (RDate e))
      = Inr (Date (Some (UTC z (wall_clock y m 1 0))))
    \<and> getFullYear z (Date (Some (UTC z (wall_clock y m 1 0)))) = getFullYear z (Date (Some t))
    \<and> Date_getMonth z (Date (Some (UTC z (wall_clock y m 1 0)))) = Date_getMonth z (Date (Some t))
    \<and> getDate z (Date (Some (UTC z (wall_clock y m 1 0)))) = Fin 1
    \<and> getHours z (Date (Some (UTC z (wall_clock y m 1 0)))) = Fin 0
    \<and> getMinutes z (Date (Some (UTC z (wall_clock y m 1 0)))) = Fin 0
    \<and> getSeconds z (Date (Some (UTC z (wall_clock y m 1 0)))) = Fin 0
    \<and> getMilliseconds z (Date (Some (UTC z (wall_clock y m 1 0)))) = Fin 0"
proof -
  have m: "0 \<le> m" "m < 12"
    unfolding assms(4) by (rule MonthFromTime_range)+
  have len: "1 \<le> days_in_month y m"
    using days_in_month_range [of y m] by linarith
  have tod: "(0::int) \<le> 86399999" "86399999 < msPerDay"
    by (simp_all add: msPerDay_def)
  have e: "endOfMonth z r = Inr (Date (Some (UTC z (wall_clock y m (days_in_month y m) 86399999))))"
    by (rule endOfMonth_path [OF assms(1-5) lands_exactly_on_day [OF assms(6)]])
  have s: "startOfMonth z (RDate (Date (Some (UTC z (wall_clock y m (days_in_month y m) 86399999)))))
      = Inr (Date (Some (UTC z (wall_clock y m 1 0))))"
    by (rule startOfMonth_path [OF m len order_refl tod assms(6,7)
          lands_exactly_on_day [OF assms(8)]])
  have c: "bindE (endOfMonth z r) (\<lambda>e. startOfMonth z (RDate e))
      = Inr (Date (Some (UTC z (wall_clock y m 1 0))))"
    by (simp only: e bindE_Inr s)
  note f = start_of_month_fields [OF m assms(8)]
  have gy: "getFullYear z (Date (Some t)) = Fin (of_int y)"
    by (simp add: getFullYear_def assms(2,3))
  have gm: "Date_getMonth z (Date (Some t)) = Fin (of_int m)"
    by (simp add: Date_getMonth_def assms(2,4))
  from c f gy gm show ?thesis by simp
qed

theorem month_round_trip_witness:
  "epoch (RDate (Date (Some 1552181400000))) = Some 1552181400000
   \<and> 1552185000000 = LocalTime cet_2019 1552181400000
   \<and> 2019 = YearFromTime 1552185000000 \<and> 2 = MonthFromTime 1552185000000
   \<and> lands_on_day cet_2019 (wall_clock 2019 2 (days_in_month 2019 2) (TimeWithinDay 1552185000000))
   \<and> lands_exactly cet_2019 (wall_clock 2019 2 (days_in_month 2019 2) 86399999)
   \<and> lands_on_day cet_2019 (wall_clock 2019 2 1 86399999)
   \<and> lands_exactly cet_2019 (wall_clock 2019 2 1 0)
   \<and> bindE (endOfMonth cet_2019 (RDate (Date (Some 1552181400000))))
        (\<lambda>e. startOfMonth cet_2019 (RDate e))
      = Inr (Date (Some (UTC cet_2019 (wall_clock 2019 2 1 0))))
   \<and> getFullYear cet_2019 (Date (Some (UTC cet_2019 (wall_clock 2019 2 1 0))))
      = getFullYear cet_2019 (Date (Some 1552181400000))
   \<and> Date_getMonth cet_2019 (Date (Some (UTC cet_2019 (wall_clock 2019 2 1 0))))
      = Date_getMonth cet_2019 (Date (Some 1552181400000))
   \<and> getDate cet_2019 (Date (Some (UTC cet_2019 (wall_clock 2019 2 1 0)))) = Fin 1
   \<and> getHours cet_2019 (Date (Some (UTC cet_2019 (wall_clock 2019 2 1 0)))) = Fin 0
   \<and> getMinutes cet_2019 (Date (Some (UTC cet_2019 (wall_clock 2019 2 1 0)))) = Fin 0
   \<and> getSeconds cet_2019 (Date (Some (UTC cet_2019 (wall_clock 2019 2 1 0)))) = Fin 0
   \<and> getMilliseconds cet_2019 (Date (Some (UTC cet_2019 (wall_clock 2019 2 1 0)))) = Fin 0"
proof -
  have w: "1552185000000 = wall_clock 2019 2 10 9000000"
    and v: "valid_wall 2019 2 10 9000000"
    by (simp_all add: wall_eval)
  note f = fields_at [OF w v]
  have 1: "epoch (RDate (Date (Some 1552181400000))) = Some 1552181400000"
    by (simp add: epoch_Date maxTime_def)
  have 2: "1552185000000 = LocalTime cet_2019 1552181400000" by (simp add: zone_eval)
  have 3: "2019 = YearFromTime 1552185000000" by (simp add: f)
  have 4: "2 = MonthFromTime 1552185000000" by (simp add: f)
  have 5: "lands_on_day cet_2019
      (wall_clock 2019 2 (days_in_month 2019 2) (TimeWithinDay 1552185000000))"
    by (simp add: f) (simp add: lands_on_day_def zone_eval wall_eval Day_def)
  have 6: "lands_exactly cet_2019 (wall_clock 2019 2 (days_in_month 2019 2) 86399999)"
    by (simp add: lands_exactly_def zone_eval wall_eval)
  have 7: "lands_on_day cet_2019 (wall_clock 2019 2 1 86399999)"
    by (simp add: lands_on_day_def zone_eval wall_eval Day_def)
  have 8: "lands_exactly cet_2019 (wall_clock 2019 2 1 0)"
    by (simp add: lands_exactly_def zone_eval wall_eval)
  from 1 2 3 4 5 6 7 8 month_round_trip [OF 1 2 3 4 5 6 7 8]
  show ?thesis by simp
qed

end
